theory Spec2Isabelle
  imports Main
begin

section \<open>Python values used by the connection manager\<close>

text \<open>
  The exceptions that occur in \<^verbatim>\<open>config/db.py\<close> and around it.  Python's
  \<^verbatim>\<open>except Exception\<close> catches the classes below \<^verbatim>\<open>Exception\<close> only;
  \<^verbatim>\<open>asyncio.CancelledError\<close>, \<^verbatim>\<open>KeyboardInterrupt\<close>, \<^verbatim>\<open>SystemExit\<close> and
  \<^verbatim>\<open>GeneratorExit\<close> derive from \<^verbatim>\<open>BaseException\<close> directly.
\<close>

datatype exn =
    ValueError string
  | RuntimeError string
  | IntegrityError string
  | OtherException string
  | CancelledError
  | KeyboardInterrupt
  | SystemExit
  | GeneratorExit

fun is_Exception :: "exn \<Rightarrow> bool" where
  "is_Exception (ValueError _) = True"
| "is_Exception (RuntimeError _) = True"
| "is_Exception (IntegrityError _) = True"
| "is_Exception (OtherException _) = True"
| "is_Exception CancelledError = False"
| "is_Exception KeyboardInterrupt = False"
| "is_Exception SystemExit = False"
| "is_Exception GeneratorExit = False"

subsection \<open>String operations\<close>

text \<open>
  Strings are lists of bytes.  All the patterns the module searches for are
  ASCII, and in UTF-8 an ASCII byte never lies inside the encoding of another
  character, so searching bytes finds what Python finds in the code points.
\<close>

text \<open>\<^verbatim>\<open>s.startswith(p)\<close>.\<close>

fun startswith :: "string \<Rightarrow> string \<Rightarrow> bool" where
  "startswith s [] = True"
| "startswith [] (p # ps) = False"
| "startswith (c # cs) (p # ps) = (c = p \<and> startswith cs ps)"

text \<open>\<^verbatim>\<open>sub in s\<close>: \<open>sub\<close> occurs somewhere in \<open>s\<close>.\<close>

fun contains :: "string \<Rightarrow> string \<Rightarrow> bool" where
  "contains [] sub = (sub = [])"
| "contains (c # cs) sub = (startswith (c # cs) sub \<or> contains cs sub)"

text \<open>
  \<^verbatim>\<open>s.find(sub)\<close>: the index of the first occurrence of \<open>sub\<close> in \<open>s\<close>, and
  \<open>None\<close> where Python returns \<^verbatim>\<open>-1\<close>.
\<close>

fun str_find :: "string \<Rightarrow> string \<Rightarrow> nat option" where
  "str_find [] sub = (if sub = [] then Some 0 else None)"
| "str_find (c # cs) sub =
     (if startswith (c # cs) sub then Some 0 else map_option Suc (str_find cs sub))"

text \<open>
  \<^verbatim>\<open>s.replace(old, new)\<close>: every occurrence of \<open>old\<close>, found from the left and
  without overlap, is replaced.  With an empty \<open>old\<close> Python puts \<open>new\<close> before
  every character and at the end.
\<close>

function replace_from :: "string \<Rightarrow> string \<Rightarrow> string \<Rightarrow> string" where
  "replace_from old new [] = []"
| "replace_from old new (c # cs) =
     (if old \<noteq> [] \<and> startswith (c # cs) old
      then new @ replace_from old new (drop (length old) (c # cs))
      else c # replace_from old new cs)"
  by pat_completeness auto
termination
  by (relation "measure (\<lambda>(old, new, s). length s)") auto

definition str_replace :: "string \<Rightarrow> string \<Rightarrow> string \<Rightarrow> string" where
  "str_replace s old new =
     (if old = [] then new @ concat (map (\<lambda>c. c # new) s)
      else replace_from old new s)"

text \<open>
  \<^verbatim>\<open>s.split(sep)\<close> for a separator that is not empty (Python raises
  \<^verbatim>\<open>ValueError\<close> on an empty one; both separators of the module are literals).
  The result is never the empty list.
\<close>

function str_split :: "string \<Rightarrow> string \<Rightarrow> string list" where
  "str_split [] sep = [[]]"
| "str_split (c # cs) sep =
     (if sep \<noteq> [] \<and> startswith (c # cs) sep
      then [] # str_split (drop (length sep) (c # cs)) sep
      else (case str_split cs sep of
              [] \<Rightarrow> [[c]]
            | w # ws \<Rightarrow> (c # w) # ws))"
  by pat_completeness auto
termination
  by (relation "measure (\<lambda>(s, sep). length s)") auto

text \<open>\<^verbatim>\<open>s.split(sep)[0]\<close>; the index is always in range.\<close>

definition split_first :: "string \<Rightarrow> string \<Rightarrow> string" where
  "split_first s sep = (case str_split s sep of [] \<Rightarrow> [] | w # ws \<Rightarrow> w)"

section \<open>Module start: \<^verbatim>\<open>config/db.py\<close>, lines 19 to 50\<close>

text \<open>
  An engine as \<^verbatim>\<open>create_async_engine\<close> is called in \<^verbatim>\<open>init_db\<close>: the URL, the
  keyword arguments, and whether \<^verbatim>\<open>dispose()\<close> has been called on it.  The dict
  \<^verbatim>\<open>connect_args\<close> is a map from keys to values.
\<close>

record engine =
  url :: string
  echo :: bool
  pool_size :: nat
  max_overflow :: nat
  pool_pre_ping :: bool
  pool_recycle :: nat
  connect_args :: "string \<rightharpoonup> bool"
  disposed :: bool

text \<open>
  Engines are objects: \<^verbatim>\<open>async_engine\<close> and the session factory refer to the same
  one.  The objects live in a list, and a reference is an index into it.
\<close>

type_synonym engine_ref = nat

record session_factory =
  bind :: engine_ref
  expire_on_commit :: bool

record module_state =
  DATABASE_URL :: string
  ASYNC_DATABASE_URL :: string
  async_engine :: "engine_ref option"
  async_session_factory :: "session_factory option"
  engines :: "engine list"
  Base_toJson :: bool

text \<open>Lines 29 to 32: the scheme of the URL.\<close>

definition scheme_rewrite :: "string \<Rightarrow> string" where
  "scheme_rewrite u =
     (if startswith u ''postgresql://''
      then str_replace u ''postgresql://'' ''postgresql+asyncpg://''
      else u)"

text \<open>Lines 36 to 41: the \<^verbatim>\<open>sslmode\<close> parameter of a Render URL.\<close>

definition strip_sslmode :: "string \<Rightarrow> string" where
  "strip_sslmode u =
     (if contains u ''render.com''
      then (if contains u ''?sslmode='' then split_first u ''?sslmode=''
            else if contains u ''&sslmode='' then split_first u ''&sslmode=''
            else u)
      else u)"

text \<open>
  The module body.  Its argument is the value of \<^verbatim>\<open>os.getenv("DATABASE_URL")\<close> once
  \<^verbatim>\<open>load_dotenv()\<close> has run: \<open>None\<close> when the variable is not set.  Python's
  \<^verbatim>\<open>not DATABASE_URL\<close> holds for \<^verbatim>\<open>None\<close> and for the empty string.  When the
  module raises, no module state exists.
\<close>

definition module_startup :: "string option \<Rightarrow> exn + module_state" where
  "module_startup getenv =
     (case getenv of
        None \<Rightarrow> Inl (ValueError ''DATABASE_URL environment variable is required'')
      | Some d \<Rightarrow>
          if d = [] then Inl (ValueError ''DATABASE_URL environment variable is required'')
          else Inr \<lparr>DATABASE_URL = d,
                    ASYNC_DATABASE_URL = strip_sslmode (scheme_rewrite d),
                    async_engine = None,
                    async_session_factory = None,
                    engines = [],
                    Base_toJson = False\<rparr>)"

section \<open>The lifecycle: \<^verbatim>\<open>init_db\<close>, \<^verbatim>\<open>close_db\<close>\<close>

datatype outcome = Returned | Raised exn

text \<open>Lines 69 to 73: \<^verbatim>\<open>connect_args\<close> starts empty and gets \<^verbatim>\<open>ssl\<close> for a Render URL.\<close>

definition init_connect_args :: "string \<Rightarrow> (string \<rightharpoonup> bool)" where
  "init_connect_args u =
     (if contains u ''render.com'' then Map.empty(''ssl'' \<mapsto> True) else Map.empty)"

text \<open>
  Two steps of \<^verbatim>\<open>init_db\<close> are not its own and can raise: the import of
  \<^verbatim>\<open>ModelJSONMixin\<close> (line 61), and \<^verbatim>\<open>create_async_engine\<close> (line 76), which
  rejects a URL it has no driver for or cannot parse.  Which URLs the library
  accepts is a parameter.
\<close>

record init_calls =
  import_mixin :: outcome
  create_async_engine :: "string \<Rightarrow> outcome"

text \<open>
  \<^verbatim>\<open>init_db\<close>.  When the import raises, nothing has changed.  When
  \<^verbatim>\<open>create_async_engine\<close> raises, \<^verbatim>\<open>Base.toJson\<close> is set already, and both globals
  are what they were.  Otherwise a new engine object, and a session factory
  bound to it, are stored in the globals.
\<close>

definition init_db :: "init_calls \<Rightarrow> module_state \<Rightarrow> module_state \<times> outcome" where
  "init_db lib st =
     (case import_mixin lib of
        Raised e \<Rightarrow> (st, Raised e)
      | Returned \<Rightarrow>
          (case create_async_engine lib (ASYNC_DATABASE_URL st) of
             Raised e \<Rightarrow> (st\<lparr>Base_toJson := True\<rparr>, Raised e)
           | Returned \<Rightarrow>
               (let e = \<lparr>url = ASYNC_DATABASE_URL st,
                          echo = False,
                          pool_size = 20,
                          max_overflow = 10,
                          pool_pre_ping = True,
                          pool_recycle = 3600,
                          connect_args = init_connect_args (ASYNC_DATABASE_URL st),
                          disposed = False\<rparr>;
                    r = length (engines st)
                in (st\<lparr>Base_toJson := True,
                        engines := engines st @ [e],
                        async_engine := Some r,
                        async_session_factory := Some \<lparr>bind = r, expire_on_commit = False\<rparr>\<rparr>,
                    Returned))))"

text \<open>\<^verbatim>\<open>init_db\<close> returns: both of its library steps do.\<close>

definition init_returns :: "init_calls \<Rightarrow> module_state \<Rightarrow> bool" where
  "init_returns lib st =
     (import_mixin lib = Returned \<and> create_async_engine lib (ASYNC_DATABASE_URL st) = Returned)"

text \<open>
  \<^verbatim>\<open>close_db\<close> disposes the engine that \<^verbatim>\<open>async_engine\<close> refers to, when there is
  one.  It assigns to no global.
\<close>

definition close_db :: "module_state \<Rightarrow> module_state" where
  "close_db st =
     (case async_engine st of
        None \<Rightarrow> st
      | Some r \<Rightarrow>
          if r < length (engines st)
          then st\<lparr>engines := (engines st)[r := (engines st ! r)\<lparr>disposed := True\<rparr>]\<rparr>
          else st)"

text \<open>A call of \<^verbatim>\<open>init_db\<close> comes with what its library steps do in it.\<close>

datatype lifecycle_op = InitDb init_calls | CloseDb

fun run_op :: "module_state \<Rightarrow> lifecycle_op \<Rightarrow> module_state" where
  "run_op st (InitDb lib) = fst (init_db lib st)"
| "run_op st CloseDb = close_db st"

definition run_ops :: "module_state \<Rightarrow> lifecycle_op list \<Rightarrow> module_state" where
  "run_ops st ops = foldl run_op st ops"

text \<open>Some call of \<^verbatim>\<open>init_db\<close> among the operations has returned.\<close>

fun initialized :: "module_state \<Rightarrow> lifecycle_op list \<Rightarrow> bool" where
  "initialized st [] = False"
| "initialized st (InitDb lib # ops) = (init_returns lib st \<or> initialized (run_op st (InitDb lib)) ops)"
| "initialized st (CloseDb # ops) = initialized (close_db st) ops"

text \<open>The two globals are set together.\<close>

definition bound :: "module_state \<Rightarrow> bool" where
  "bound st =
     (\<exists>r. async_session_factory st = Some \<lparr>bind = r, expire_on_commit = False\<rparr>
          \<and> async_engine st = Some r)"

section \<open>The scoped session: \<^verbatim>\<open>get_async_session\<close>\<close>

record session =
  session_bind :: engine_ref
  session_expire_on_commit :: bool

text \<open>
  What the calls on the session do is the library's business: each of
  \<^verbatim>\<open>commit()\<close>, \<^verbatim>\<open>rollback()\<close> and \<^verbatim>\<open>close()\<close> returns or raises, and the model
  takes the three results as given.
\<close>

record session_calls =
  commit_result :: outcome
  rollback_result :: outcome
  close_result :: outcome

text \<open>
  The unit of work behind a session: whether changes of the block wait in an
  open transaction, how often they have been made durable, whether the session
  holds a connection of the pool, and how often it has given one back.
\<close>

record work =
  pending :: bool
  persisted :: nat
  held :: bool
  released :: nat

text \<open>
  Modelled from the spec: the effect of the three session methods, which belong
  to the ORM library.  A commit makes the pending changes durable; a rollback
  discards them; closing the session discards what is still pending and
  releases the connection, and does nothing on a session that is closed
  already.  A call that raises has no effect.
\<close>

definition do_commit :: "session_calls \<Rightarrow> work \<Rightarrow> work" where
  "do_commit lib w =
     (case commit_result lib of
        Returned \<Rightarrow> w\<lparr>pending := False, persisted := persisted w + (if pending w then 1 else 0)\<rparr>
      | Raised e \<Rightarrow> w)"

definition do_rollback :: "session_calls \<Rightarrow> work \<Rightarrow> work" where
  "do_rollback lib w =
     (case rollback_result lib of Returned \<Rightarrow> w\<lparr>pending := False\<rparr> | Raised e \<Rightarrow> w)"

definition do_close :: "session_calls \<Rightarrow> work \<Rightarrow> work" where
  "do_close lib w =
     (case close_result lib of
        Returned \<Rightarrow>
          w\<lparr>pending := False, held := False, released := released w + (if held w then 1 else 0)\<rparr>
      | Raised e \<Rightarrow> w)"

text \<open>
  The calls made on the session, in order: entering and leaving the
  \<^verbatim>\<open>async with async_session_factory() as session\<close> block, the \<^verbatim>\<open>yield\<close> that hands
  the session to the caller's block, and the three methods.
\<close>

datatype call = SessionEnter | Yield session | Commit | Rollback | Close | SessionExit

text \<open>A run so far: the calls, the unit of work, and how control leaves.\<close>

record run =
  calls :: "call list"
  work_of :: work
  leaves :: outcome

text \<open>
  Up to the \<^verbatim>\<open>yield\<close> (lines 117 to 120): the check of the factory, and the session
  it makes.  The factory object is truthy, so \<^verbatim>\<open>not async_session_factory\<close> holds
  exactly when the global is \<^verbatim>\<open>None\<close>.
\<close>

definition get_async_session_enter :: "module_state \<Rightarrow> exn + session" where
  "get_async_session_enter st =
     (case async_session_factory st of
        None \<Rightarrow> Inl (RuntimeError ''Database not initialized. Call init_db() first.'')
      | Some f \<Rightarrow> Inr \<lparr>session_bind = bind f, session_expire_on_commit = expire_on_commit f\<rparr>)"

text \<open>
  The block has run on the session: the session holds a connection, and the
  changes of the block are pending, whether the block returned or raised.
\<close>

definition after_block :: "session \<Rightarrow> outcome \<Rightarrow> run" where
  "after_block s body =
     \<lparr>calls = [SessionEnter, Yield s],
      work_of = \<lparr>pending = True, persisted = 0, held = True, released = 0\<rparr>,
      leaves = body\<rparr>"

text \<open>
  Lines 121 to 123: when the block returned, \<^verbatim>\<open>commit()\<close> is called; when it
  raised, the exception is raised at the \<^verbatim>\<open>yield\<close>.
\<close>

definition try_block :: "session_calls \<Rightarrow> run \<Rightarrow> run" where
  "try_block lib r =
     (case leaves r of
        Returned \<Rightarrow>
          r\<lparr>calls := calls r @ [Commit], work_of := do_commit lib (work_of r),
            leaves := commit_result lib\<rparr>
      | Raised e \<Rightarrow> r)"

text \<open>
  Lines 124 to 126: \<^verbatim>\<open>except Exception\<close> calls \<^verbatim>\<open>rollback()\<close> and raises the caught
  exception again; an exception raised by \<^verbatim>\<open>rollback()\<close> itself takes its place.
\<close>

definition except_block :: "session_calls \<Rightarrow> run \<Rightarrow> run" where
  "except_block lib r =
     (case leaves r of
        Returned \<Rightarrow> r
      | Raised e \<Rightarrow>
          if is_Exception e
          then r\<lparr>calls := calls r @ [Rollback], work_of := do_rollback lib (work_of r),
                 leaves := (case rollback_result lib of
                              Returned \<Rightarrow> Raised e | Raised e' \<Rightarrow> Raised e')\<rparr>
          else r)"

text \<open>Lines 127 and 128: \<^verbatim>\<open>finally\<close> calls \<^verbatim>\<open>close()\<close> whatever happened.\<close>

definition finally_block :: "session_calls \<Rightarrow> run \<Rightarrow> run" where
  "finally_block lib r =
     r\<lparr>calls := calls r @ [Close], work_of := do_close lib (work_of r),
       leaves := (case close_result lib of Returned \<Rightarrow> leaves r | Raised e' \<Rightarrow> Raised e')\<rparr>"

text \<open>
  Line 120, on the way out: leaving \<^verbatim>\<open>async with async_session_factory() as
  session\<close> runs the session's own exit, which calls \<^verbatim>\<open>close()\<close> once more and
  does not swallow an exception.
\<close>

definition session_exit :: "session_calls \<Rightarrow> run \<Rightarrow> run" where
  "session_exit lib r =
     r\<lparr>calls := calls r @ [SessionExit, Close], work_of := do_close lib (work_of r),
       leaves := (case close_result lib of Returned \<Rightarrow> leaves r | Raised e' \<Rightarrow> Raised e')\<rparr>"

text \<open>
  \<^verbatim>\<open>async with get_async_session() as session: body\<close>.  The body is a function of
  the session it is given; it is not run when no session is made, and then
  there is no unit of work either.
\<close>

definition get_async_session :: "module_state \<Rightarrow> session_calls \<Rightarrow> (session \<Rightarrow> outcome) \<Rightarrow> run" where
  "get_async_session st lib body =
     (case get_async_session_enter st of
        Inl e \<Rightarrow>
          \<lparr>calls = [], work_of = \<lparr>pending = False, persisted = 0, held = False, released = 0\<rparr>,
           leaves = Raised e\<rparr>
      | Inr s \<Rightarrow>
          session_exit lib
            (finally_block lib (except_block lib (try_block lib (after_block s (body s))))))"

section \<open>The tables: \<^verbatim>\<open>models/booking.py\<close> and \<^verbatim>\<open>models/review.py\<close>\<close>

text \<open>
  The two model classes declare columns, server defaults, \<^verbatim>\<open>NOT NULL\<close>, check
  and uniqueness constraints and foreign keys; the relational store enforces
  them on every write, with the meaning SQL gives them.  A column value is
  \<open>None\<close> for SQL's \<^verbatim>\<open>NULL\<close>.  A \<^verbatim>\<open>UUID\<close> is a number here, a \<^verbatim>\<open>Numeric(6, 2)\<close>
  amount is counted in cents, and a timestamp is a number.  The widths of the
  column types (six digits for the amount, twenty characters for the status)
  limit the conversion of a value into a column value; they are no constraints
  of the table and are left out.
\<close>

type_synonym uuid = nat
type_synonym timestamp = nat

record booking_row =
  b_id :: "uuid option"
  b_ride_id :: "uuid option"
  b_passenger_id :: "uuid option"
  b_seats_reserved :: "int option"
  b_amount_paid :: "int option"
  b_status :: "string option"
  b_booked_at :: "timestamp option"

record review_row =
  r_id :: "uuid option"
  r_ride_id :: "uuid option"
  r_reviewer_id :: "uuid option"
  r_reviewee_id :: "uuid option"
  r_rating :: "int option"
  r_comment :: "string option"
  r_created_at :: "timestamp option"

text \<open>
  Modelled from the spec: the \<^verbatim>\<open>rides\<close> and \<^verbatim>\<open>users\<close> tables.  Their model classes
  are not among the source files; the foreign keys of \<^verbatim>\<open>Booking\<close> and \<^verbatim>\<open>Review\<close>
  refer to \<^verbatim>\<open>rides.id\<close> and \<^verbatim>\<open>users.id\<close>, so each of the two tables is taken as the
  set of its primary keys.
\<close>

record db =
  rides :: "uuid set"
  users :: "uuid set"
  bookings :: "booking_row list"
  reviews :: "review_row list"

text \<open>
  A rejected write breaks one constraint or several.  The model lists all that
  are broken, in the order in which the store checks them; the one error that
  the store raises is the first of the list (\<open>raised_error\<close> below).
\<close>

datatype violation =
    NotNullViolation string
  | CheckViolation string
  | UniqueViolation string
  | PrimaryKeyViolation string
  | ForeignKeyViolation string

text \<open>
  What the server-side defaults produce for one statement:
  \<^verbatim>\<open>gen_random_uuid()\<close> and \<^verbatim>\<open>func.now()\<close>.
\<close>

record server =
  gen_random_uuid :: uuid
  now :: timestamp

text \<open>A column left out of an \<^verbatim>\<open>INSERT\<close> takes its server default.\<close>

definition server_default :: "'a \<Rightarrow> 'a option \<Rightarrow> 'a option" where
  "server_default d v = (case v of None \<Rightarrow> Some d | Some x \<Rightarrow> Some x)"

text \<open>A check constraint is violated only when its condition is false; on \<^verbatim>\<open>NULL\<close> it is unknown.\<close>

definition sql_check :: "'a option \<Rightarrow> ('a \<Rightarrow> bool) \<Rightarrow> bool" where
  "sql_check v P = (case v of None \<Rightarrow> True | Some x \<Rightarrow> P x)"

definition not_null :: "(string \<times> bool) list \<Rightarrow> violation list" where
  "not_null cols = map (\<lambda>c. NotNullViolation (fst c)) (filter (\<lambda>c. snd c) cols)"

definition checks :: "(string \<times> bool) list \<Rightarrow> violation list" where
  "checks cs = map (\<lambda>c. CheckViolation (fst c)) (filter (\<lambda>c. \<not> snd c) cs)"

text \<open>A foreign key with a value must find its row; a \<^verbatim>\<open>NULL\<close> one refers to nothing.\<close>

definition fk_holds :: "uuid option \<Rightarrow> uuid set \<Rightarrow> bool" where
  "fk_holds v target = (case v of None \<Rightarrow> True | Some x \<Rightarrow> x \<in> target)"

definition foreign_key :: "string \<Rightarrow> uuid option \<Rightarrow> uuid set \<Rightarrow> violation list" where
  "foreign_key name v target = (if fk_holds v target then [] else [ForeignKeyViolation name])"

definition primary_key :: "string \<Rightarrow> uuid option \<Rightarrow> uuid option list \<Rightarrow> violation list" where
  "primary_key table v others =
     (if v \<noteq> None \<and> v \<in> set others then [PrimaryKeyViolation table] else [])"

subsection \<open>\<^verbatim>\<open>Booking\<close>\<close>

text \<open>Server defaults of \<^verbatim>\<open>id\<close>, \<^verbatim>\<open>amount_paid\<close> (\<^verbatim>\<open>0.00\<close>), \<^verbatim>\<open>status\<close> and \<^verbatim>\<open>booked_at\<close>.\<close>

definition booking_defaults :: "server \<Rightarrow> booking_row \<Rightarrow> booking_row" where
  "booking_defaults srv b =
     b\<lparr>b_id := server_default (gen_random_uuid srv) (b_id b),
       b_amount_paid := server_default 0 (b_amount_paid b),
       b_status := server_default ''pending'' (b_status b),
       b_booked_at := server_default (now srv) (b_booked_at b)\<rparr>"

text \<open>Every column of \<^verbatim>\<open>bookings\<close> is \<^verbatim>\<open>nullable=False\<close> (the primary key by its kind).\<close>

definition booking_not_null :: "booking_row \<Rightarrow> violation list" where
  "booking_not_null b =
     not_null [(''id'', b_id b = None),
               (''ride_id'', b_ride_id b = None),
               (''passenger_id'', b_passenger_id b = None),
               (''seats_reserved'', b_seats_reserved b = None),
               (''amount_paid'', b_amount_paid b = None),
               (''status'', b_status b = None),
               (''booked_at'', b_booked_at b = None)]"

text \<open>\<^verbatim>\<open>Booking.__table_args__\<close>: the three check constraints.\<close>

definition booking_checks :: "booking_row \<Rightarrow> violation list" where
  "booking_checks b =
     checks [(''check_seats_reserved_positive'', sql_check (b_seats_reserved b) (\<lambda>s. s > 0)),
             (''check_amount_positive'', sql_check (b_amount_paid b) (\<lambda>a. a \<ge> 0)),
             (''check_booking_status'',
                sql_check (b_status b)
                  (\<lambda>s. s \<in> set [''pending'', ''confirmed'', ''cancelled'', ''completed'']))]"

text \<open>
  All violations of a candidate row, against the other rows of the table and the
  referenced tables.
\<close>

definition booking_violations :: "db \<Rightarrow> booking_row list \<Rightarrow> booking_row \<Rightarrow> violation list" where
  "booking_violations d others b =
     booking_not_null b @ booking_checks b
     @ primary_key ''bookings'' (b_id b) (map b_id others)
     @ foreign_key ''ride_id'' (b_ride_id b) (rides d)
     @ foreign_key ''passenger_id'' (b_passenger_id b) (users d)"

definition insert_booking :: "server \<Rightarrow> db \<Rightarrow> booking_row \<Rightarrow> violation list + db" where
  "insert_booking srv d vals =
     (let b = booking_defaults srv vals;
          vs = booking_violations d (bookings d) b
      in if vs = [] then Inr (d\<lparr>bookings := bookings d @ [b]\<rparr>) else Inl vs)"

text \<open>
  An \<^verbatim>\<open>UPDATE\<close> of the row with the given key to new column values.  No default
  applies; when no row has the key, nothing is written.
\<close>

definition update_booking :: "db \<Rightarrow> uuid \<Rightarrow> booking_row \<Rightarrow> violation list + db" where
  "update_booking d k b =
     (if Some k \<notin> set (map b_id (bookings d)) then Inr d
      else
        (let others = filter (\<lambda>x. b_id x \<noteq> Some k) (bookings d);
             vs = booking_violations d others b
         in if vs = [] then Inr (d\<lparr>bookings := map (\<lambda>x. if b_id x = Some k then b else x) (bookings d)\<rparr>)
            else Inl vs))"

subsection \<open>\<^verbatim>\<open>Review\<close>\<close>

definition review_defaults :: "server \<Rightarrow> review_row \<Rightarrow> review_row" where
  "review_defaults srv r =
     r\<lparr>r_id := server_default (gen_random_uuid srv) (r_id r),
       r_created_at := server_default (now srv) (r_created_at r)\<rparr>"

text \<open>\<^verbatim>\<open>comment\<close> is the one nullable column.\<close>

definition review_not_null :: "review_row \<Rightarrow> violation list" where
  "review_not_null r =
     not_null [(''id'', r_id r = None),
               (''ride_id'', r_ride_id r = None),
               (''reviewer_id'', r_reviewer_id r = None),
               (''reviewee_id'', r_reviewee_id r = None),
               (''rating'', r_rating r = None),
               (''created_at'', r_created_at r = None)]"

definition review_checks :: "review_row \<Rightarrow> violation list" where
  "review_checks r =
     checks [(''check_rating_range'', sql_check (r_rating r) (\<lambda>n. n \<ge> 1 \<and> n \<le> 5))]"

text \<open>The columns of \<^verbatim>\<open>unique_review_per_ride_pair\<close>.\<close>

definition review_key :: "review_row \<Rightarrow> uuid option \<times> uuid option \<times> uuid option" where
  "review_key r = (r_ride_id r, r_reviewer_id r, r_reviewee_id r)"

text \<open>
  Two rows collide on a uniqueness constraint when they agree on all its columns
  and none of these is \<^verbatim>\<open>NULL\<close>.
\<close>

definition review_unique :: "review_row list \<Rightarrow> review_row \<Rightarrow> violation list" where
  "review_unique others r =
     (if r_ride_id r \<noteq> None \<and> r_reviewer_id r \<noteq> None \<and> r_reviewee_id r \<noteq> None
         \<and> review_key r \<in> set (map review_key others)
      then [UniqueViolation ''unique_review_per_ride_pair''] else [])"

definition review_violations :: "db \<Rightarrow> review_row list \<Rightarrow> review_row \<Rightarrow> violation list" where
  "review_violations d others r =
     review_not_null r @ review_checks r
     @ primary_key ''reviews'' (r_id r) (map r_id others)
     @ review_unique others r
     @ foreign_key ''ride_id'' (r_ride_id r) (rides d)
     @ foreign_key ''reviewer_id'' (r_reviewer_id r) (users d)
     @ foreign_key ''reviewee_id'' (r_reviewee_id r) (users d)"

definition insert_review :: "server \<Rightarrow> db \<Rightarrow> review_row \<Rightarrow> violation list + db" where
  "insert_review srv d vals =
     (let r = review_defaults srv vals;
          vs = review_violations d (reviews d) r
      in if vs = [] then Inr (d\<lparr>reviews := reviews d @ [r]\<rparr>) else Inl vs)"

definition update_review :: "db \<Rightarrow> uuid \<Rightarrow> review_row \<Rightarrow> violation list + db" where
  "update_review d k r =
     (if Some k \<notin> set (map r_id (reviews d)) then Inr d
      else
        (let others = filter (\<lambda>x. r_id x \<noteq> Some k) (reviews d);
             vs = review_violations d others r
         in if vs = [] then Inr (d\<lparr>reviews := map (\<lambda>x. if r_id x = Some k then r else x) (reviews d)\<rparr>)
            else Inl vs))"

subsection \<open>Deleting a referenced row\<close>

text \<open>
  What a foreign key does when the row it refers to is deleted.  All four foreign
  keys of the two models say \<^verbatim>\<open>ondelete="CASCADE"\<close>; the other actions are here to
  say what a cascade is not: they refuse the delete while a row still refers to
  the deleted one.
\<close>

datatype ondelete = CASCADE | RESTRICT | NO_ACTION

record fk_decl =
  fk_column :: string
  fk_target :: string
  fk_ondelete :: ondelete

definition booking_ride_fk :: fk_decl where
  "booking_ride_fk = \<lparr>fk_column = ''ride_id'', fk_target = ''rides.id'', fk_ondelete = CASCADE\<rparr>"

definition booking_passenger_fk :: fk_decl where
  "booking_passenger_fk =
     \<lparr>fk_column = ''passenger_id'', fk_target = ''users.id'', fk_ondelete = CASCADE\<rparr>"

definition review_ride_fk :: fk_decl where
  "review_ride_fk = \<lparr>fk_column = ''ride_id'', fk_target = ''rides.id'', fk_ondelete = CASCADE\<rparr>"

definition review_reviewer_fk :: fk_decl where
  "review_reviewer_fk =
     \<lparr>fk_column = ''reviewer_id'', fk_target = ''users.id'', fk_ondelete = CASCADE\<rparr>"

definition review_reviewee_fk :: fk_decl where
  "review_reviewee_fk =
     \<lparr>fk_column = ''reviewee_id'', fk_target = ''users.id'', fk_ondelete = CASCADE\<rparr>"

text \<open>
  The rows of a referring table once the key \<open>k\<close> is deleted from the table that
  \<open>fk\<close> refers to; \<open>col\<close> reads the referring column.
\<close>

definition on_delete :: "fk_decl \<Rightarrow> ('row \<Rightarrow> uuid option) \<Rightarrow> uuid \<Rightarrow> 'row list \<Rightarrow> violation list + 'row list" where
  "on_delete fk col k rows =
     (case fk_ondelete fk of
        CASCADE \<Rightarrow> Inr (filter (\<lambda>x. col x \<noteq> Some k) rows)
      | RESTRICT \<Rightarrow>
          if list_ex (\<lambda>x. col x = Some k) rows then Inl [ForeignKeyViolation (fk_column fk)]
          else Inr rows
      | NO_ACTION \<Rightarrow>
          if list_ex (\<lambda>x. col x = Some k) rows then Inl [ForeignKeyViolation (fk_column fk)]
          else Inr rows)"

definition delete_ride :: "db \<Rightarrow> uuid \<Rightarrow> violation list + db" where
  "delete_ride d k =
     (if k \<notin> rides d then Inr d
      else
        (case on_delete booking_ride_fk b_ride_id k (bookings d) of
           Inl vs \<Rightarrow> Inl vs
         | Inr bs \<Rightarrow>
             (case on_delete review_ride_fk r_ride_id k (reviews d) of
                Inl vs \<Rightarrow> Inl vs
              | Inr rs \<Rightarrow> Inr (d\<lparr>rides := rides d - {k}, bookings := bs, reviews := rs\<rparr>))))"

definition delete_user :: "db \<Rightarrow> uuid \<Rightarrow> violation list + db" where
  "delete_user d k =
     (if k \<notin> users d then Inr d
      else
        (case on_delete booking_passenger_fk b_passenger_id k (bookings d) of
           Inl vs \<Rightarrow> Inl vs
         | Inr bs \<Rightarrow>
             (case on_delete review_reviewer_fk r_reviewer_id k (reviews d) of
                Inl vs \<Rightarrow> Inl vs
              | Inr rs \<Rightarrow>
                  (case on_delete review_reviewee_fk r_reviewee_id k rs of
                     Inl vs \<Rightarrow> Inl vs
                   | Inr rs' \<Rightarrow> Inr (d\<lparr>users := users d - {k}, bookings := bs, reviews := rs'\<rparr>)))))"

subsection \<open>States of the store\<close>

text \<open>
  The writes of the model.  A rejected write changes nothing: its transaction is
  rolled back.  Adding a ride or a user is modelled from the spec, as above.
\<close>

datatype db_op =
    AddRide uuid
  | AddUser uuid
  | InsertBooking server booking_row
  | UpdateBooking uuid booking_row
  | InsertReview server review_row
  | UpdateReview uuid review_row
  | DeleteRide uuid
  | DeleteUser uuid

definition keep :: "db \<Rightarrow> violation list + db \<Rightarrow> db" where
  "keep d res = (case res of Inl vs \<Rightarrow> d | Inr d' \<Rightarrow> d')"

fun apply_op :: "db \<Rightarrow> db_op \<Rightarrow> db" where
  "apply_op d (AddRide k) = d\<lparr>rides := insert k (rides d)\<rparr>"
| "apply_op d (AddUser k) = d\<lparr>users := insert k (users d)\<rparr>"
| "apply_op d (InsertBooking srv b) = keep d (insert_booking srv d b)"
| "apply_op d (UpdateBooking k b) = keep d (update_booking d k b)"
| "apply_op d (InsertReview srv r) = keep d (insert_review srv d r)"
| "apply_op d (UpdateReview k r) = keep d (update_review d k r)"
| "apply_op d (DeleteRide k) = keep d (delete_ride d k)"
| "apply_op d (DeleteUser k) = keep d (delete_user d k)"

definition empty_db :: db where
  "empty_db = \<lparr>rides = {}, users = {}, bookings = [], reviews = []\<rparr>"

definition run_db :: "db_op list \<Rightarrow> db" where
  "run_db ops = foldl apply_op empty_db ops"

text \<open>No stored booking or review refers to a ride or a user that is not there.\<close>

definition no_orphans :: "db \<Rightarrow> bool" where
  "no_orphans d =
     (list_all (\<lambda>b. fk_holds (b_ride_id b) (rides d) \<and> fk_holds (b_passenger_id b) (users d))
        (bookings d)
      \<and> list_all (\<lambda>r. fk_holds (r_ride_id r) (rides d) \<and> fk_holds (r_reviewer_id r) (users d)
                      \<and> fk_holds (r_reviewee_id r) (users d))
          (reviews d))"

text \<open>
  The invariants of a stored row in the words of the spec: a booking has
  \<^verbatim>\<open>seats_reserved > 0\<close>, \<^verbatim>\<open>amount_paid >= 0\<close> and one of the four status values; a
  review has a rating from 1 to 5.
\<close>

definition booking_invariants :: "booking_row \<Rightarrow> bool" where
  "booking_invariants b =
     ((case b_seats_reserved b of None \<Rightarrow> False | Some s \<Rightarrow> s > 0)
      \<and> (case b_amount_paid b of None \<Rightarrow> False | Some a \<Rightarrow> a \<ge> 0)
      \<and> (case b_status b of
            None \<Rightarrow> False
          | Some s \<Rightarrow> s = ''pending'' \<or> s = ''confirmed'' \<or> s = ''cancelled'' \<or> s = ''completed''))"

definition review_invariants :: "review_row \<Rightarrow> bool" where
  "review_invariants r = (case r_rating r of None \<Rightarrow> False | Some n \<Rightarrow> 1 \<le> n \<and> n \<le> 5)"

text \<open>The key columns of every stored row have values, and no two rows share a key.\<close>

definition keys_ok :: "db \<Rightarrow> bool" where
  "keys_ok d =
     (list_all (\<lambda>b. b_id b \<noteq> None) (bookings d)
      \<and> distinct (map b_id (bookings d))
      \<and> list_all (\<lambda>r. r_id r \<noteq> None) (reviews d)
      \<and> distinct (map r_id (reviews d))
      \<and> distinct (map review_key (reviews d)))"

text \<open>The constraint violations that tell of a broken booking invariant.\<close>

definition booking_rejections :: "violation list" where
  "booking_rejections =
     [NotNullViolation ''seats_reserved'', CheckViolation ''check_seats_reserved_positive'',
      NotNullViolation ''amount_paid'', CheckViolation ''check_amount_positive'',
      NotNullViolation ''status'', CheckViolation ''check_booking_status'']"

text \<open>
  The store raises one error for a rejected write.  It checks \<^verbatim>\<open>NOT NULL\<close> and
  the check constraints on the row before it looks at the unique indexes and
  the foreign keys, which is the order of the lists above; the error raised is
  the first of the list.
\<close>

definition raised_error :: "violation list + db \<Rightarrow> violation option" where
  "raised_error res =
     (case res of Inl (v # vs) \<Rightarrow> Some v | Inl [] \<Rightarrow> None | Inr d \<Rightarrow> None)"


section \<open>Inputs used in the examples\<close>

text \<open>Two blocks for the scoped session: one that raises, one that returns.\<close>

definition raising :: "exn \<Rightarrow> session \<Rightarrow> outcome" where
  "raising e s = Raised e"

definition returning :: "session \<Rightarrow> outcome" where
  "returning s = Returned"

text \<open>A session whose three methods all return.\<close>

definition calls_ok :: session_calls where
  "calls_ok = \<lparr>commit_result = Returned, rollback_result = Returned, close_result = Returned\<rparr>"

text \<open>
  Library steps of \<^verbatim>\<open>init_db\<close>: one where every URL is accepted, and one where
  only the \<^verbatim>\<open>asyncpg\<close> scheme has a driver.
\<close>

definition accept_all :: "string \<Rightarrow> outcome" where
  "accept_all u = Returned"

definition asyncpg_only :: "string \<Rightarrow> outcome" where
  "asyncpg_only u =
     (if startswith u ''postgresql+asyncpg://'' then Returned
      else Raised (OtherException ''NoSuchModuleError''))"

definition library_ok :: init_calls where
  "library_ok = \<lparr>import_mixin = Returned, create_async_engine = accept_all\<rparr>"

definition library_asyncpg :: init_calls where
  "library_asyncpg = \<lparr>import_mixin = Returned, create_async_engine = asyncpg_only\<rparr>"

text \<open>The module state after a start with a plain PostgreSQL URL, and after \<^verbatim>\<open>init_db\<close>.\<close>

definition example_engine :: engine where
  "example_engine =
     \<lparr>url = ''postgresql+asyncpg://u:p@db.example.org/app'', echo = False, pool_size = 20,
      max_overflow = 10, pool_pre_ping = True, pool_recycle = 3600,
      connect_args = Map.empty, disposed = False\<rparr>"

definition ready_state :: module_state where
  "ready_state =
     \<lparr>DATABASE_URL = ''postgresql://u:p@db.example.org/app'',
      ASYNC_DATABASE_URL = ''postgresql+asyncpg://u:p@db.example.org/app'',
      async_engine = Some 0,
      async_session_factory = Some \<lparr>bind = 0, expire_on_commit = False\<rparr>,
      engines = [example_engine], Base_toJson = True\<rparr>"

text \<open>A start with the scheme \<^verbatim>\<open>postgres://\<close>, which the rewrite step leaves alone.\<close>

definition postgres_state :: module_state where
  "postgres_state =
     \<lparr>DATABASE_URL = ''postgres://u:p@h.render.com/app'',
      ASYNC_DATABASE_URL = ''postgres://u:p@h.render.com/app'',
      async_engine = None, async_session_factory = None, engines = [], Base_toJson = False\<rparr>"

text \<open>The same start, before \<^verbatim>\<open>init_db\<close>.\<close>

definition example_state :: module_state where
  "example_state =
     \<lparr>DATABASE_URL = ''postgresql://u:p@db.example.org/app'',
      ASYNC_DATABASE_URL = ''postgresql+asyncpg://u:p@db.example.org/app'',
      async_engine = None, async_session_factory = None, engines = [], Base_toJson = False\<rparr>"

definition example_session :: session where
  "example_session = \<lparr>session_bind = 0, session_expire_on_commit = False\<rparr>"

text \<open>Connection strings, and the module state a start leaves for them.\<close>

definition render_url :: string where
  "render_url = ''postgresql://u:p@dpg-1.oregon-postgres.render.com/app?sslmode=require&connect_timeout=10''"

definition render_url_amp :: string where
  "render_url_amp = ''postgresql://u:p@dpg-1.oregon-postgres.render.com/app?connect_timeout=10&sslmode=require&application_name=app''"

definition late_render_url :: string where
  "late_render_url = ''postgresql://u:p@db.example.org/app?sslmode=require&application_name=render.com''"

definition state_of :: "string \<Rightarrow> string \<Rightarrow> module_state" where
  "state_of d u = \<lparr>DATABASE_URL = d, ASYNC_DATABASE_URL = u, async_engine = None,
      async_session_factory = None, engines = [], Base_toJson = False\<rparr>"

definition render_async :: string where
  "render_async = ''postgresql+asyncpg://u:p@dpg-1.oregon-postgres.render.com/app''"

definition render_amp_async :: string where
  "render_amp_async = ''postgresql+asyncpg://u:p@dpg-1.oregon-postgres.render.com/app?connect_timeout=10''"

definition late_render_async :: string where
  "late_render_async = ''postgresql+asyncpg://u:p@db.example.org/app''"

text \<open>A store with one ride and two users, and rows to write into it.\<close>

definition example_db :: db where
  "example_db = \<lparr>rides = {1}, users = {10, 11}, bookings = [], reviews = []\<rparr>"

definition example_server :: server where
  "example_server = \<lparr>gen_random_uuid = 100, now = 1000\<rparr>"

definition later_server :: server where
  "later_server = \<lparr>gen_random_uuid = 101, now = 2000\<rparr>"

definition example_booking :: "int \<Rightarrow> booking_row" where
  "example_booking seats =
     \<lparr>b_id = None, b_ride_id = Some 1, b_passenger_id = Some 10,
      b_seats_reserved = Some seats, b_amount_paid = None, b_status = None,
      b_booked_at = None\<rparr>"

definition stored_booking :: booking_row where
  "stored_booking =
     \<lparr>b_id = Some 100, b_ride_id = Some 1, b_passenger_id = Some 10,
      b_seats_reserved = Some 1, b_amount_paid = Some 0, b_status = Some ''pending'',
      b_booked_at = Some 1000\<rparr>"

definition example_review :: "int \<Rightarrow> review_row" where
  "example_review rating =
     \<lparr>r_id = None, r_ride_id = Some 1, r_reviewer_id = Some 10, r_reviewee_id = Some 11,
      r_rating = Some rating, r_comment = None, r_created_at = None\<rparr>"

definition stored_review :: review_row where
  "stored_review =
     \<lparr>r_id = Some 100, r_ride_id = Some 1, r_reviewer_id = Some 10, r_reviewee_id = Some 11,
      r_rating = Some 5, r_comment = None, r_created_at = Some 1000\<rparr>"

definition full_db :: db where
  "full_db = \<lparr>rides = {1}, users = {10, 11}, bookings = [stored_booking],
               reviews = [stored_review]\<rparr>"



section \<open>Properties of the connection manager\<close>

subsection \<open>Module start\<close>

text \<open>
  C7.  When \<^verbatim>\<open>DATABASE_URL\<close> is not set, or is set to the empty string, the module
  raises \<^verbatim>\<open>ValueError\<close> while it is loaded: the result is the error, and no
  module state, hence no engine and no session factory, comes into being.
\<close>

theorem startup_requires_url:
  assumes "getenv = None \<or> getenv = Some []"
  shows "module_startup getenv
           = Inl (ValueError ''DATABASE_URL environment variable is required'')"
  using assms by (auto simp: module_startup_def)

theorem startup_requires_url_witness:
  "module_startup None = Inl (ValueError ''DATABASE_URL environment variable is required'')
   \<and> module_startup (Some [])
       = Inl (ValueError ''DATABASE_URL environment variable is required'')"
  using startup_requires_url [of None] startup_requires_url [of "Some []"] by simp

subsection \<open>Initialisation and shutdown\<close>

lemma init_db_returned:
  "init_returns lib st \<Longrightarrow>
     init_db lib st =
       (st\<lparr>Base_toJson := True,
           engines := engines st @
             [\<lparr>url = ASYNC_DATABASE_URL st, echo = False, pool_size = 20, max_overflow = 10,
               pool_pre_ping = True, pool_recycle = 3600,
               connect_args = init_connect_args (ASYNC_DATABASE_URL st), disposed = False\<rparr>],
           async_engine := Some (length (engines st)),
           async_session_factory := Some \<lparr>bind = length (engines st), expire_on_commit = False\<rparr>\<rparr>,
        Returned)"
  by (simp add: init_returns_def init_db_def Let_def)

lemma init_db_raised:
  "\<not> init_returns lib st \<Longrightarrow>
     async_engine (fst (init_db lib st)) = async_engine st
     \<and> async_session_factory (fst (init_db lib st)) = async_session_factory st
     \<and> engines (fst (init_db lib st)) = engines st
     \<and> snd (init_db lib st) \<noteq> Returned"
  by (auto simp: init_returns_def init_db_def Let_def split: outcome.splits)

lemma close_db_globals:
  "async_engine (close_db st) = async_engine st"
  "async_session_factory (close_db st) = async_session_factory st"
  by (simp_all add: close_db_def split: option.splits)

lemma run_ops_Cons: "run_ops st (x # ops) = run_ops (run_op st x) ops"
  by (simp add: run_ops_def)

lemma run_op_bound: "bound st \<Longrightarrow> bound (run_op st x)"
proof (cases x)
  case (InitDb lib)
  assume "bound st"
  then show ?thesis using InitDb init_db_raised [of lib st]
    by (cases "init_returns lib st") (auto simp: bound_def init_db_returned)
next
  case CloseDb
  assume "bound st"
  then show ?thesis using CloseDb by (simp add: bound_def close_db_globals)
qed

lemma run_ops_bound: "bound st \<Longrightarrow> bound (run_ops st ops)"
  by (induction ops arbitrary: st) (simp_all add: run_ops_Cons run_op_bound, simp add: run_ops_def)

lemma run_ops_initialized:
  "async_session_factory st = None \<Longrightarrow>
     (if initialized st ops then bound (run_ops st ops)
      else async_session_factory (run_ops st ops) = None)"
proof (induction ops arbitrary: st)
  case Nil
  then show ?case by (simp add: run_ops_def)
next
  case (Cons x ops)
  show ?case
  proof (cases x)
    case CloseDb
    with Cons.IH [of "close_db st"] Cons.prems show ?thesis
      by (auto simp: run_ops_Cons close_db_globals split: if_splits)
  next
    case (InitDb lib)
    show ?thesis
    proof (cases "init_returns lib st")
      case True
      then have "bound (run_op st x)" using InitDb by (simp add: bound_def init_db_returned)
      then have "bound (run_ops st (x # ops))" by (simp add: run_ops_Cons run_ops_bound)
      with True InitDb show ?thesis by simp
    next
      case False
      with Cons.prems InitDb have "async_session_factory (run_op st x) = None"
        using init_db_raised [of lib st] by simp
      from Cons.IH [OF this] False show ?thesis unfolding InitDb by (auto simp: run_ops_Cons split: if_splits)
    qed
  qed
qed

lemma startup_factory: "module_startup getenv = Inr st \<Longrightarrow> async_session_factory st = None"
  by (auto simp: module_startup_def split: option.splits if_splits)

lemma get_async_session_calls_prefix:
  "get_async_session_enter st = Inr s \<Longrightarrow>
     take 2 (calls (get_async_session st lib body)) = [SessionEnter, Yield s]"
  by (simp add: get_async_session_def session_exit_def finally_block_def except_block_def
      try_block_def after_block_def split: outcome.splits)

text \<open>
  C2.  Start from the state the module has once it is loaded, and run any
  sequence of \<^verbatim>\<open>init_db\<close> and \<^verbatim>\<open>close_db\<close> calls.  As long as no call of
  \<^verbatim>\<open>init_db\<close> has returned (none was made, or each one raised in the import or
  in \<^verbatim>\<open>create_async_engine\<close>), \<^verbatim>\<open>get_async_session\<close> raises the \<^verbatim>\<open>RuntimeError\<close>
  "Database not initialized": it makes no call on any session, yields nothing
  and does not run the caller's block.  Once a call of \<^verbatim>\<open>init_db\<close> has returned,
  \<^verbatim>\<open>get_async_session\<close> makes a session bound to the current engine and yields
  it, and the block runs on it.
\<close>

theorem session_needs_init:
  assumes "module_startup getenv = Inr st0"
  shows "(\<not> initialized st0 ops \<longrightarrow>
            get_async_session (run_ops st0 ops) lib body
              = \<lparr>calls = [],
                 work_of = \<lparr>pending = False, persisted = 0, held = False, released = 0\<rparr>,
                 leaves = Raised (RuntimeError ''Database not initialized. Call init_db() first.'')\<rparr>)
       \<and> (initialized st0 ops \<longrightarrow>
            (\<exists>s. get_async_session_enter (run_ops st0 ops) = Inr s
               \<and> async_engine (run_ops st0 ops) = Some (session_bind s)
               \<and> take 2 (calls (get_async_session (run_ops st0 ops) lib body))
                   = [SessionEnter, Yield s]
               \<and> get_async_session (run_ops st0 ops) lib body
                   = session_exit lib (finally_block lib (except_block lib
                       (try_block lib (after_block s (body s)))))))"
proof (intro conjI impI)
  assume "\<not> initialized st0 ops"
  then have "async_session_factory (run_ops st0 ops) = None"
    using run_ops_initialized [OF startup_factory [OF assms], of ops] by simp
  then show "get_async_session (run_ops st0 ops) lib body
              = \<lparr>calls = [],
                 work_of = \<lparr>pending = False, persisted = 0, held = False, released = 0\<rparr>,
                 leaves = Raised (RuntimeError ''Database not initialized. Call init_db() first.'')\<rparr>"
    by (simp add: get_async_session_def get_async_session_enter_def)
next
  assume "initialized st0 ops"
  then have "bound (run_ops st0 ops)"
    using run_ops_initialized [OF startup_factory [OF assms], of ops] by simp
  then obtain r where r:
    "async_session_factory (run_ops st0 ops) = Some \<lparr>bind = r, expire_on_commit = False\<rparr>"
    "async_engine (run_ops st0 ops) = Some r"
    by (auto simp: bound_def)
  let ?s = "\<lparr>session_bind = r, session_expire_on_commit = False\<rparr>"
  from r(1) have e: "get_async_session_enter (run_ops st0 ops) = Inr ?s"
    by (simp add: get_async_session_enter_def)
  from e r(2) get_async_session_calls_prefix [OF e]
  show "\<exists>s. get_async_session_enter (run_ops st0 ops) = Inr s
               \<and> async_engine (run_ops st0 ops) = Some (session_bind s)
               \<and> take 2 (calls (get_async_session (run_ops st0 ops) lib body))
                   = [SessionEnter, Yield s]
               \<and> get_async_session (run_ops st0 ops) lib body
                   = session_exit lib (finally_block lib (except_block lib
                       (try_block lib (after_block s (body s)))))"
    by (intro exI [of _ ?s]) (simp add: get_async_session_def)
qed

lemma example_state_startup:
  "module_startup (Some ''postgresql://u:p@db.example.org/app'') = Inr example_state"
  by (simp add: module_startup_def example_state_def scheme_rewrite_def strip_sslmode_def
      str_replace_def)

lemma postgres_state_startup:
  "module_startup (Some ''postgres://u:p@h.render.com/app'') = Inr postgres_state"
  by (simp add: module_startup_def postgres_state_def scheme_rewrite_def strip_sslmode_def)

lemma example_init: "init_db library_ok example_state = (ready_state, Returned)"
  by (simp add: init_db_def library_ok_def accept_all_def example_state_def ready_state_def
      example_engine_def init_connect_args_def Let_def)

theorem session_needs_init_witness:
  "module_startup (Some ''postgres://u:p@h.render.com/app'') = Inr postgres_state
   \<and> \<not> initialized postgres_state [CloseDb, InitDb library_asyncpg]
   \<and> get_async_session (run_ops postgres_state [CloseDb, InitDb library_asyncpg]) calls_ok returning
       = \<lparr>calls = [],
          work_of = \<lparr>pending = False, persisted = 0, held = False, released = 0\<rparr>,
          leaves = Raised (RuntimeError ''Database not initialized. Call init_db() first.'')\<rparr>
   \<and> module_startup (Some ''postgresql://u:p@db.example.org/app'') = Inr example_state
   \<and> initialized example_state [InitDb library_ok, CloseDb]
   \<and> (\<exists>s. get_async_session_enter (run_ops example_state [InitDb library_ok, CloseDb]) = Inr s
          \<and> take 2 (calls (get_async_session (run_ops example_state [InitDb library_ok, CloseDb])
                calls_ok returning)) = [SessionEnter, Yield s])"
proof -
  have n: "\<not> initialized postgres_state [CloseDb, InitDb library_asyncpg]"
    by (simp add: init_returns_def library_asyncpg_def asyncpg_only_def postgres_state_def
        close_db_def)
  have i: "initialized example_state [InitDb library_ok, CloseDb]"
    by (simp add: init_returns_def library_ok_def accept_all_def)
  from session_needs_init [OF postgres_state_startup, of "[CloseDb, InitDb library_asyncpg]"
      calls_ok returning] n
  have a: "get_async_session (run_ops postgres_state [CloseDb, InitDb library_asyncpg]) calls_ok
             returning
       = \<lparr>calls = [],
          work_of = \<lparr>pending = False, persisted = 0, held = False, released = 0\<rparr>,
          leaves = Raised (RuntimeError ''Database not initialized. Call init_db() first.'')\<rparr>"
    by blast
  from session_needs_init [OF example_state_startup, of "[InitDb library_ok, CloseDb]"
      calls_ok returning] i
  have b: "\<exists>s. get_async_session_enter (run_ops example_state [InitDb library_ok, CloseDb]) = Inr s
          \<and> take 2 (calls (get_async_session (run_ops example_state [InitDb library_ok, CloseDb])
                calls_ok returning)) = [SessionEnter, Yield s]"
    by blast
  from postgres_state_startup n a example_state_startup i b show ?thesis by blast
qed

text \<open>
  C9.  \<^verbatim>\<open>close_db\<close> leaves \<^verbatim>\<open>async_engine\<close> and \<^verbatim>\<open>async_session_factory\<close> as they
  are.  So when \<^verbatim>\<open>init_db\<close> has returned and \<^verbatim>\<open>close_db\<close> has run, the engine is
  disposed and the factory is still set; \<^verbatim>\<open>get_async_session\<close> does not take the
  not-initialized exit (which makes no call) but makes a session from that
  factory, yields it, and goes on as in any other scope.
\<close>

theorem close_db_keeps_globals:
  "async_engine (close_db st) = async_engine st
   \<and> async_session_factory (close_db st) = async_session_factory st
   \<and> (init_returns il st \<longrightarrow>
        async_session_factory (close_db (fst (init_db il st)))
          = Some \<lparr>bind = length (engines st), expire_on_commit = False\<rparr>
        \<and> disposed (engines (close_db (fst (init_db il st))) ! length (engines st))
        \<and> calls (get_async_session (close_db (fst (init_db il st))) lib body) \<noteq> []
        \<and> take 2 (calls (get_async_session (close_db (fst (init_db il st))) lib body))
            = [SessionEnter,
               Yield \<lparr>session_bind = length (engines st), session_expire_on_commit = False\<rparr>]
        \<and> get_async_session (close_db (fst (init_db il st))) lib body
            = session_exit lib (finally_block lib (except_block lib (try_block lib
                (after_block \<lparr>session_bind = length (engines st), session_expire_on_commit = False\<rparr>
                   (body \<lparr>session_bind = length (engines st),
                           session_expire_on_commit = False\<rparr>))))))"
proof (intro conjI impI)
  show "async_engine (close_db st) = async_engine st"
    "async_session_factory (close_db st) = async_session_factory st"
    by (simp_all add: close_db_globals)
next
  assume r: "init_returns il st"
  let ?st = "close_db (fst (init_db il st))"
  let ?s = "\<lparr>session_bind = length (engines st), session_expire_on_commit = False\<rparr>"
  show f: "async_session_factory ?st = Some \<lparr>bind = length (engines st), expire_on_commit = False\<rparr>"
    using r by (simp add: close_db_globals init_db_returned)
  then have e: "get_async_session_enter ?st = Inr ?s"
    by (simp add: get_async_session_enter_def)
  show "disposed (engines ?st ! length (engines st))"
    using r by (simp add: init_db_returned close_db_def)
  show p: "take 2 (calls (get_async_session ?st lib body)) = [SessionEnter, Yield ?s]"
    using e by (rule get_async_session_calls_prefix)
  then show "calls (get_async_session ?st lib body) \<noteq> []" by auto
  show "get_async_session ?st lib body
            = session_exit lib (finally_block lib (except_block lib (try_block lib
                (after_block ?s (body ?s)))))"
    using e by (simp add: get_async_session_def)
qed

theorem close_db_keeps_globals_witness:
  "init_returns library_ok example_state
   \<and> async_session_factory (close_db (fst (init_db library_ok example_state)))
       = Some \<lparr>bind = 0, expire_on_commit = False\<rparr>
   \<and> get_async_session (close_db (fst (init_db library_ok example_state))) calls_ok returning
       = \<lparr>calls = [SessionEnter, Yield example_session, Commit, Close, SessionExit, Close],
          work_of = \<lparr>pending = False, persisted = 1, held = False, released = 1\<rparr>,
          leaves = Returned\<rparr>
   \<and> take 2 (calls (get_async_session (close_db (fst (init_db library_ok example_state)))
         calls_ok returning))
       = [SessionEnter,
          Yield \<lparr>session_bind = length (engines example_state), session_expire_on_commit = False\<rparr>]"
proof -
  have i: "init_returns library_ok example_state"
    by (simp add: init_returns_def library_ok_def accept_all_def)
  have f: "async_session_factory (close_db (fst (init_db library_ok example_state)))
       = Some \<lparr>bind = 0, expire_on_commit = False\<rparr>"
    by (simp add: example_init close_db_globals ready_state_def)
  have g: "get_async_session (close_db (fst (init_db library_ok example_state))) calls_ok returning
       = \<lparr>calls = [SessionEnter, Yield example_session, Commit, Close, SessionExit, Close],
          work_of = \<lparr>pending = False, persisted = 1, held = False, released = 1\<rparr>,
          leaves = Returned\<rparr>"
    by (simp add: get_async_session_def get_async_session_enter_def f session_exit_def
        finally_block_def except_block_def try_block_def after_block_def do_commit_def
        do_close_def calls_ok_def returning_def example_session_def)
  from close_db_keeps_globals [of example_state library_ok calls_ok returning] i
  have "take 2 (calls (get_async_session (close_db (fst (init_db library_ok example_state)))
         calls_ok returning))
       = [SessionEnter,
          Yield \<lparr>session_bind = length (engines example_state), session_expire_on_commit = False\<rparr>]"
    by blast
  with i f g show ?thesis by blast
qed

subsection \<open>The scoped session\<close>

lemmas session_defs = get_async_session_def session_exit_def finally_block_def except_block_def
  try_block_def after_block_def do_commit_def do_rollback_def do_close_def

lemma example_enter: "get_async_session_enter ready_state = Inr example_session"
  by (simp add: get_async_session_enter_def ready_state_def example_session_def)


lemma run_returning:
  "get_async_session ready_state calls_ok returning
     = \<lparr>calls = [SessionEnter, Yield example_session, Commit, Close, SessionExit, Close],
        work_of = \<lparr>pending = False, persisted = 1, held = False, released = 1\<rparr>,
        leaves = Returned\<rparr>"
  by (simp add: session_defs example_enter calls_ok_def returning_def)


lemma run_cancelled:
  "get_async_session ready_state calls_ok (raising CancelledError)
     = \<lparr>calls = [SessionEnter, Yield example_session, Close, SessionExit, Close],
        work_of = \<lparr>pending = False, persisted = 0, held = False, released = 1\<rparr>,
        leaves = Raised CancelledError\<rparr>"
  by (simp add: session_defs example_enter calls_ok_def raising_def)


section \<open>Properties of the URL handling\<close>

subsection \<open>Strings\<close>


lemma startswith_iff: "startswith s p \<longleftrightarrow> (\<exists>t. s = p @ t)"
  by (induction s p rule: startswith.induct) auto

lemma startswith_drop: "startswith s p \<Longrightarrow> p @ drop (length p) s = s"
  by (induction s p rule: startswith.induct) auto

lemma contains_find: "contains s sub \<longleftrightarrow> str_find s sub \<noteq> None"
  by (induction s) auto

lemma split_first_Nil: "split_first [] sep = []"
  by (simp add: split_first_def)

lemma split_first_Cons:
  "split_first (c # cs) sep =
     (if sep \<noteq> [] \<and> startswith (c # cs) sep then [] else c # split_first cs sep)"
  by (auto simp: split_first_def split: list.splits)

lemma split_first_find:
  "sep \<noteq> [] \<Longrightarrow> split_first s sep = (case str_find s sep of None \<Rightarrow> s | Some i \<Rightarrow> take i s)"
  by (induction s) (auto simp: split_first_Nil split_first_Cons split: option.splits)

lemma find_decompose:
  "str_find s sub = Some i \<Longrightarrow> s = take i s @ sub @ drop (i + length sub) s"
proof (induction s arbitrary: i)
  case Nil
  then show ?case by (auto split: if_splits)
next
  case (Cons c cs)
  show ?case
  proof (cases "startswith (c # cs) sub")
    case True
    with Cons.prems have "i = 0" by simp
    with True show ?thesis using startswith_drop [of "c # cs" sub] by simp
  next
    case False
    with Cons.prems obtain j where j: "str_find cs sub = Some j" "i = Suc j" by auto
    from Cons.IH [OF j(1)] j(2) show ?thesis by simp
  qed
qed

lemma startswith_take_mono:
  "startswith (take n s) p \<Longrightarrow> startswith s p"
  by (induction s p arbitrary: n rule: startswith.induct) (auto simp: take_Cons split: nat.splits)

lemma find_take_none:
  "sub \<noteq> [] \<Longrightarrow> str_find s sub = Some i \<Longrightarrow> \<not> contains (take i s) sub"
proof (induction s arbitrary: i)
  case Nil
  then show ?case by auto
next
  case (Cons c cs)
  show ?case
  proof (cases "startswith (c # cs) sub")
    case True
    with Cons.prems show ?thesis by simp
  next
    case False
    with Cons.prems obtain j where j: "str_find cs sub = Some j" "i = Suc j" by auto
    have "\<not> startswith (take i (c # cs)) sub"
      using False startswith_take_mono by blast
    with Cons.IH [OF Cons.prems(1) j(1)] j(2) show ?thesis by simp
  qed
qed

lemma contains_append_right: "contains s w \<Longrightarrow> contains (t @ s) w"
  by (induction t) auto

lemma startswith_append_left: "startswith s w \<Longrightarrow> startswith (s @ t) w"
  by (induction s w rule: startswith.induct) auto

lemma contains_Nil [simp]: "contains s []"
  by (cases s) auto

lemma contains_append_left: "contains s w \<Longrightarrow> contains (s @ t) w"
proof (induction s)
  case Nil
  then show ?case by simp
next
  case (Cons c cs)
  then show ?case using startswith_append_left [of "c # cs" w t] by auto
qed

lemma contains_middle: "contains (a @ w @ b) w"
proof -
  have "startswith (w @ b) w" by (simp add: startswith_iff)
  then have "contains (w @ b) w" by (cases "w @ b") auto
  then show ?thesis by (rule contains_append_right)
qed


lemma replace_from_startswith:
  assumes "old = p # old'" and "new = p # new'" and "p \<notin> set w"
  shows "startswith (replace_from old new s) w = startswith s w"
  using assms
proof (induction old new s arbitrary: w rule: replace_from.induct)
  case (1 old new)
  show ?case by simp
next
  case (2 old new c cs)
  show ?case
  proof (cases "startswith (c # cs) old")
    case True
    with "2.prems"(1) have c: "c = p" by simp
    have r: "replace_from old new (c # cs)
               = p # new' @ replace_from old new (drop (length old) (c # cs))"
      using True "2.prems"(1,2) by simp
    show ?thesis
    proof (cases w)
      case Nil
      then show ?thesis by simp
    next
      case (Cons x xs)
      with "2.prems"(3) have "x \<noteq> p" by auto
      then show ?thesis unfolding r Cons using c by auto
    qed
  next
    case False
    then have r: "replace_from old new (c # cs) = c # replace_from old new cs"
      by simp
    show ?thesis
    proof (cases w)
      case Nil
      then show ?thesis by simp
    next
      case (Cons x xs)
      with "2.prems"(3) have "p \<notin> set xs" by simp
      from "2.IH"(2) [OF _ "2.prems"(1,2) this] False
      have "startswith (replace_from old new cs) xs = startswith cs xs" by simp
      with Cons show ?thesis by (simp only: r) simp
    qed
  qed
qed

lemma replace_from_contains:
  assumes "old = p # old'" and "new = p # new'" and "p \<notin> set w"
    and new: "\<And>t. contains (new @ t) w = contains t w"
    and old: "\<And>t. contains (old @ t) w = contains t w"
  shows "contains (replace_from old new s) w = contains s w"
  using assms
proof (induction old new s rule: replace_from.induct)
  case (1 old new)
  show ?case by simp
next
  case (2 old new c cs)
  show ?case
  proof (cases "startswith (c # cs) old")
    case True
    then have eq: "old @ drop (length old) (c # cs) = c # cs"
      by (rule startswith_drop)
    have ne: "old \<noteq> []" using "2.prems"(1) by simp
    have "contains (replace_from old new (c # cs)) w
          = contains (new @ replace_from old new (drop (length old) (c # cs))) w"
      using True ne by simp
    also have "\<dots> = contains (replace_from old new (drop (length old) (c # cs))) w"
      by (rule "2.prems"(4))
    also have "\<dots> = contains (drop (length old) (c # cs)) w"
      using "2.IH"(1) [OF _ "2.prems"] True ne by simp
    also have "\<dots> = contains (old @ drop (length old) (c # cs)) w"
      by (rule "2.prems"(5) [symmetric])
    finally show ?thesis by (simp only: eq)
  next
    case False
    then have r: "replace_from old new (c # cs) = c # replace_from old new cs"
      by simp
    have ih: "contains (replace_from old new cs) w = contains cs w"
      using "2.IH"(2) [OF _ "2.prems"] False by simp
    have "startswith (c # replace_from old new cs) w = startswith (c # cs) w"
    proof (cases w)
      case Nil
      then show ?thesis by simp
    next
      case (Cons x xs)
      with "2.prems"(3) have "p \<notin> set xs" by simp
      then show ?thesis
        using Cons replace_from_startswith [OF "2.prems"(1,2), of xs cs] by simp
    qed
    with ih show ?thesis by (simp only: r contains.simps)
  qed
qed

lemma scheme_rewrite_contains:
  assumes "CHR ''p'' \<notin> set w"
    and "\<And>t. contains (''postgresql+asyncpg://'' @ t) w = contains t w"
    and "\<And>t. contains (''postgresql://'' @ t) w = contains t w"
  shows "contains (scheme_rewrite d) w = contains d w"
proof (cases "startswith d ''postgresql://''")
  case True
  have "contains (replace_from ''postgresql://'' ''postgresql+asyncpg://'' d) w = contains d w"
    by (rule replace_from_contains [OF _ _ assms]) simp_all
  with True show ?thesis by (simp add: scheme_rewrite_def str_replace_def)
next
  case False
  then show ?thesis by (simp add: scheme_rewrite_def)
qed


lemma scheme_rewrite_qmark: "contains (scheme_rewrite d) ''?sslmode='' = contains d ''?sslmode=''"
  by (rule scheme_rewrite_contains) simp_all

lemma scheme_rewrite_amp: "contains (scheme_rewrite d) ''&sslmode='' = contains d ''&sslmode=''"
  by (rule scheme_rewrite_contains) simp_all


lemma contains_take: "contains (take i u) w \<Longrightarrow> contains u w"
  using contains_append_left [of "take i u" w "drop i u"] by simp

lemma startup_Some:
  "module_startup (Some d) = Inr st \<Longrightarrow>
     d \<noteq> [] \<and> st = state_of d (strip_sslmode (scheme_rewrite d))"
  by (auto simp: module_startup_def state_of_def split: if_splits)

lemma strip_sslmode_cases:
  "strip_sslmode u =
     (if contains u ''render.com''
      then (case str_find u ''?sslmode='' of
              Some i \<Rightarrow> take i u
            | None \<Rightarrow> (case str_find u ''&sslmode='' of Some i \<Rightarrow> take i u | None \<Rightarrow> u))
      else u)"
  by (auto simp: strip_sslmode_def contains_find split_first_find split: option.splits)

lemma strip_sslmode_no_qmark:
  "contains u ''render.com'' \<Longrightarrow> \<not> contains (strip_sslmode u) ''?sslmode=''"
proof -
  assume r: "contains u ''render.com''"
  show ?thesis
  proof (cases "str_find u ''?sslmode=''")
    case (Some i)
    then have "\<not> contains (take i u) ''?sslmode=''" by (intro find_take_none) simp_all
    with r Some show ?thesis by (simp add: strip_sslmode_cases)
  next
    case None
    then have n: "\<not> contains u ''?sslmode=''" by (simp add: contains_find)
    then have "\<And>i. \<not> contains (take i u) ''?sslmode=''" using contains_take by blast
    with r None n show ?thesis by (simp add: strip_sslmode_cases split: option.splits)
  qed
qed

lemma strip_sslmode_no_amp:
  assumes "contains u ''render.com''" and "\<not> contains u ''?sslmode=''"
  shows "\<not> contains (strip_sslmode u) ''&sslmode=''"
proof -
  from assms(2) have n: "str_find u ''?sslmode='' = None" by (simp add: contains_find)
  show ?thesis
  proof (cases "str_find u ''&sslmode=''")
    case (Some i)
    then have "\<not> contains (take i u) ''&sslmode=''" by (intro find_take_none) simp_all
    with assms n Some show ?thesis by (simp add: strip_sslmode_cases)
  next
    case None
    then have "\<not> contains u ''&sslmode=''" by (simp add: contains_find)
    with assms n None show ?thesis by (simp add: strip_sslmode_cases)
  qed
qed

lemma find_le_length: "str_find u w = Some j \<Longrightarrow> j \<le> length u"
  by (induction u arbitrary: j) (auto split: if_splits)

lemma contains_take_find:
  assumes "str_find u w = Some j" and "j + length w \<le> i"
  shows "contains (take i u) w"
proof -
  from find_decompose [OF assms(1)]
  have u: "u = take j u @ w @ drop (j + length w) u" .
  have lj: "length (take j u) = j"
    using find_le_length [OF assms(1)] by simp
  have "take i u = take i (take j u @ w @ drop (j + length w) u)" using u by simp
  also have "\<dots> = take j u @ w @ take (i - j - length w) (drop (j + length w) u)"
    using assms(2) lj by simp
  finally show ?thesis using contains_middle by simp
qed


subsection \<open>The connection URL\<close>

lemma render_url_startup:
  "module_startup (Some render_url) = Inr (state_of render_url render_async)"
  by (simp add: module_startup_def state_of_def render_url_def render_async_def
      scheme_rewrite_def strip_sslmode_def str_replace_def split_first_def)

lemma render_url_amp_startup:
  "module_startup (Some render_url_amp) = Inr (state_of render_url_amp render_amp_async)"
  by (simp add: module_startup_def state_of_def render_url_amp_def render_amp_async_def
      scheme_rewrite_def strip_sslmode_def str_replace_def split_first_def)

text \<open>
  C8.  The URL below contains \<^verbatim>\<open>render.com\<close>, but only behind its \<^verbatim>\<open>sslmode\<close>
  parameter.  The module treats it as a Render URL and cuts the parameter away,
  \<^verbatim>\<open>render.com\<close> with it; \<^verbatim>\<open>init_db\<close> then looks for \<^verbatim>\<open>render.com\<close> in what is
  left and passes empty \<^verbatim>\<open>connect_args\<close>.  So the \<^verbatim>\<open>sslmode\<close> of the URL is gone
  and SSL is not enabled in its place, against the comments of lines 43 and 71.
\<close>

theorem ssl_dropped_for_render_url:
  "contains late_render_url ''render.com''
   \<and> contains late_render_url ''?sslmode=''
   \<and> module_startup (Some late_render_url) = Inr (state_of late_render_url late_render_async)
   \<and> \<not> contains late_render_async ''sslmode''
   \<and> init_db library_ok (state_of late_render_url late_render_async)
       = ((state_of late_render_url late_render_async)
            \<lparr>Base_toJson := True,
             engines := [\<lparr>url = late_render_async, echo = False, pool_size = 20,
                          max_overflow = 10, pool_pre_ping = True, pool_recycle = 3600,
                          connect_args = init_connect_args late_render_async,
                          disposed = False\<rparr>],
             async_engine := Some 0,
             async_session_factory := Some \<lparr>bind = 0, expire_on_commit = False\<rparr>\<rparr>,
          Returned)
   \<and> init_connect_args late_render_async ''ssl'' = None"
  by (simp add: module_startup_def state_of_def late_render_url_def late_render_async_def
      scheme_rewrite_def strip_sslmode_def str_replace_def split_first_def init_db_def
      init_connect_args_def library_ok_def accept_all_def Let_def)





section \<open>Properties of the tables\<close>

subsection \<open>Violations, and the writes one by one\<close>

lemma not_null_empty: "not_null cols = [] \<longleftrightarrow> (\<forall>c\<in>set cols. \<not> snd c)"
  by (simp add: not_null_def filter_empty_conv)

lemma checks_empty: "checks cs = [] \<longleftrightarrow> (\<forall>c\<in>set cs. snd c)"
  by (simp add: checks_def filter_empty_conv)

lemma not_null_mem: "NotNullViolation n \<in> set (not_null cols) \<longleftrightarrow> (n, True) \<in> set cols"
  by (force simp: not_null_def)

lemma checks_mem: "CheckViolation n \<in> set (checks cs) \<longleftrightarrow> (n, False) \<in> set cs"
  by (force simp: checks_def)

lemma foreign_key_empty: "foreign_key n v S = [] \<longleftrightarrow> fk_holds v S"
  by (simp add: foreign_key_def)

lemma primary_key_empty: "primary_key t v others = [] \<longleftrightarrow> (v = None \<or> v \<notin> set others)"
  by (simp add: primary_key_def)

lemma booking_violations_empty:
  "booking_violations d others b = [] \<longleftrightarrow>
     (b_id b \<noteq> None \<and> b_ride_id b \<noteq> None \<and> b_passenger_id b \<noteq> None
      \<and> b_booked_at b \<noteq> None \<and> booking_invariants b
      \<and> b_id b \<notin> set (map b_id others)
      \<and> fk_holds (b_ride_id b) (rides d) \<and> fk_holds (b_passenger_id b) (users d))"
  by (auto simp: booking_violations_def booking_not_null_def booking_checks_def not_null_empty
      checks_empty foreign_key_empty primary_key_empty booking_invariants_def sql_check_def
      split: option.splits)

lemma booking_violations_named:
  assumes "\<not> booking_invariants b"
  shows "set (booking_violations d others b)
           \<inter> {NotNullViolation ''seats_reserved'', CheckViolation ''check_seats_reserved_positive'',
              NotNullViolation ''amount_paid'', CheckViolation ''check_amount_positive'',
              NotNullViolation ''status'', CheckViolation ''check_booking_status''} \<noteq> {}"
proof -
  have "NotNullViolation ''seats_reserved'' \<in> set (booking_not_null b)
      \<or> CheckViolation ''check_seats_reserved_positive'' \<in> set (booking_checks b)
      \<or> NotNullViolation ''amount_paid'' \<in> set (booking_not_null b)
      \<or> CheckViolation ''check_amount_positive'' \<in> set (booking_checks b)
      \<or> NotNullViolation ''status'' \<in> set (booking_not_null b)
      \<or> CheckViolation ''check_booking_status'' \<in> set (booking_checks b)"
    using assms
    by (auto simp: booking_not_null_def booking_checks_def not_null_mem checks_mem
        booking_invariants_def sql_check_def split: option.splits)
  then show ?thesis by (auto simp: booking_violations_def)
qed

lemma review_violations_empty:
  "review_violations d others r = [] \<longleftrightarrow>
     (r_id r \<noteq> None \<and> r_ride_id r \<noteq> None \<and> r_reviewer_id r \<noteq> None
      \<and> r_reviewee_id r \<noteq> None \<and> r_created_at r \<noteq> None \<and> review_invariants r
      \<and> r_id r \<notin> set (map r_id others)
      \<and> review_key r \<notin> set (map review_key others)
      \<and> fk_holds (r_ride_id r) (rides d) \<and> fk_holds (r_reviewer_id r) (users d)
      \<and> fk_holds (r_reviewee_id r) (users d))"
  by (auto simp: review_violations_def review_not_null_def review_checks_def not_null_empty
      checks_empty foreign_key_empty primary_key_empty review_invariants_def sql_check_def
      review_unique_def split: option.splits)

lemma review_violations_named:
  assumes "\<not> review_invariants r"
  shows "NotNullViolation ''rating'' \<in> set (review_violations d others r)
       \<or> CheckViolation ''check_rating_range'' \<in> set (review_violations d others r)"
  using assms
  by (auto simp: review_violations_def review_not_null_def review_checks_def not_null_mem
      checks_mem review_invariants_def sql_check_def split: option.splits)

lemma insert_booking_Inr:
  "insert_booking srv d vals = Inr d' \<longleftrightarrow>
     (booking_violations d (bookings d) (booking_defaults srv vals) = []
      \<and> d' = d\<lparr>bookings := bookings d @ [booking_defaults srv vals]\<rparr>)"
  by (auto simp: insert_booking_def Let_def)

lemma update_booking_Inr:
  "update_booking d k b = Inr d' \<longleftrightarrow>
     (if Some k \<notin> set (map b_id (bookings d)) then d' = d
      else booking_violations d (filter (\<lambda>x. b_id x \<noteq> Some k) (bookings d)) b = []
           \<and> d' = d\<lparr>bookings := map (\<lambda>x. if b_id x = Some k then b else x) (bookings d)\<rparr>)"
  by (auto simp: update_booking_def Let_def)

lemma insert_review_Inr:
  "insert_review srv d vals = Inr d' \<longleftrightarrow>
     (review_violations d (reviews d) (review_defaults srv vals) = []
      \<and> d' = d\<lparr>reviews := reviews d @ [review_defaults srv vals]\<rparr>)"
  by (auto simp: insert_review_def Let_def)

lemma update_review_Inr:
  "update_review d k r = Inr d' \<longleftrightarrow>
     (if Some k \<notin> set (map r_id (reviews d)) then d' = d
      else review_violations d (filter (\<lambda>x. r_id x \<noteq> Some k) (reviews d)) r = []
           \<and> d' = d\<lparr>reviews := map (\<lambda>x. if r_id x = Some k then r else x) (reviews d)\<rparr>)"
  by (auto simp: update_review_def Let_def)

lemma on_delete_cascade:
  "fk_ondelete fk = CASCADE \<Longrightarrow> on_delete fk col k rows = Inr (filter (\<lambda>x. col x \<noteq> Some k) rows)"
  by (simp add: on_delete_def)

lemma delete_ride_eq:
  "delete_ride d k =
     Inr (if k \<notin> rides d then d
          else d\<lparr>rides := rides d - {k},
                 bookings := filter (\<lambda>b. b_ride_id b \<noteq> Some k) (bookings d),
                 reviews := filter (\<lambda>r. r_ride_id r \<noteq> Some k) (reviews d)\<rparr>)"
  by (simp add: delete_ride_def on_delete_cascade booking_ride_fk_def review_ride_fk_def)

lemma delete_user_eq:
  "delete_user d k =
     Inr (if k \<notin> users d then d
          else d\<lparr>users := users d - {k},
                 bookings := filter (\<lambda>b. b_passenger_id b \<noteq> Some k) (bookings d),
                 reviews := filter (\<lambda>r. r_reviewee_id r \<noteq> Some k)
                              (filter (\<lambda>r. r_reviewer_id r \<noteq> Some k) (reviews d))\<rparr>)"
  by (simp add: delete_user_def on_delete_cascade booking_passenger_fk_def
      review_reviewer_fk_def review_reviewee_fk_def)

lemma keep_cases: "keep d res = d \<or> res = Inr (keep d res)"
  by (cases res) (simp_all add: keep_def)

lemma fk_holds_insert: "fk_holds v S \<Longrightarrow> fk_holds v (insert k S)"
  by (cases v) (simp_all add: fk_holds_def)

lemma fk_holds_remove: "fk_holds v S \<Longrightarrow> v \<noteq> Some k \<Longrightarrow> fk_holds v (S - {k})"
  by (cases v) (simp_all add: fk_holds_def)

text \<open>Replacing the one row with key k.\<close>

lemma map_replace_other:
  "Some k \<notin> set (map key xs) \<Longrightarrow> map (\<lambda>x. if key x = Some k then r else x) xs = xs"
  by (induction xs) auto

lemma filter_other:
  "Some k \<notin> set (map key xs) \<Longrightarrow> filter (\<lambda>x. key x \<noteq> Some k) xs = xs"
  by (induction xs) auto

lemma distinct_map_replace:
  assumes "distinct (map g xs)"
    and "g r \<notin> set (map g (filter (\<lambda>x. key x \<noteq> Some k) xs))"
    and "distinct (map key xs)"
  shows "distinct (map g (map (\<lambda>x. if key x = Some k then r else x) xs))"
  using assms
proof (induction xs)
  case Nil
  show ?case by simp
next
  case (Cons x xs)
  show ?case
  proof (cases "key x = Some k")
    case True
    with Cons.prems(3) have n: "Some k \<notin> set (map key xs)" by auto
    then have m: "map (\<lambda>x. if key x = Some k then r else x) xs = xs"
      by (rule map_replace_other)
    from n have f: "filter (\<lambda>x. key x \<noteq> Some k) xs = xs"
      by (rule filter_other)
    from Cons.prems True f m show ?thesis by auto
  next
    case False
    from Cons.prems False
    have ih: "distinct (map g (map (\<lambda>x. if key x = Some k then r else x) xs))"
      by (intro Cons.IH) auto
    from Cons.prems False have "g x \<noteq> g r" by auto
    moreover from Cons.prems have "g x \<notin> set (map g xs)" by simp
    ultimately have "g x \<notin> set (map g (map (\<lambda>x. if key x = Some k then r else x) xs))"
      by (auto split: if_splits)
    with ih False show ?thesis by simp
  qed
qed

subsection \<open>What every write preserves\<close>

lemma no_orphans_apply_op: "no_orphans d \<Longrightarrow> no_orphans (apply_op d op)"
proof (cases op)
  case (AddRide k)
  assume "no_orphans d"
  then show ?thesis using AddRide
    by (auto simp: no_orphans_def list_all_iff fk_holds_insert)
next
  case (AddUser k)
  assume "no_orphans d"
  then show ?thesis using AddUser
    by (auto simp: no_orphans_def list_all_iff fk_holds_insert)
next
  case (InsertBooking srv b)
  assume a: "no_orphans d"
  from keep_cases [of d "insert_booking srv d b"] show ?thesis
  proof
    assume "keep d (insert_booking srv d b) = d"
    with a InsertBooking show ?thesis by simp
  next
    assume "insert_booking srv d b = Inr (keep d (insert_booking srv d b))"
    then show ?thesis using a InsertBooking
      by (auto simp: insert_booking_Inr booking_violations_empty no_orphans_def list_all_iff)
  qed
next
  case (UpdateBooking k b)
  assume a: "no_orphans d"
  from keep_cases [of d "update_booking d k b"] show ?thesis
  proof
    assume "keep d (update_booking d k b) = d"
    with a UpdateBooking show ?thesis by simp
  next
    assume "update_booking d k b = Inr (keep d (update_booking d k b))"
    then show ?thesis using a UpdateBooking
      by (auto simp: update_booking_Inr booking_violations_empty no_orphans_def list_all_iff
          split: if_splits)
  qed
next
  case (InsertReview srv r)
  assume a: "no_orphans d"
  from keep_cases [of d "insert_review srv d r"] show ?thesis
  proof
    assume "keep d (insert_review srv d r) = d"
    with a InsertReview show ?thesis by simp
  next
    assume "insert_review srv d r = Inr (keep d (insert_review srv d r))"
    then show ?thesis using a InsertReview
      by (auto simp: insert_review_Inr review_violations_empty no_orphans_def list_all_iff)
  qed
next
  case (UpdateReview k r)
  assume a: "no_orphans d"
  from keep_cases [of d "update_review d k r"] show ?thesis
  proof
    assume "keep d (update_review d k r) = d"
    with a UpdateReview show ?thesis by simp
  next
    assume "update_review d k r = Inr (keep d (update_review d k r))"
    then show ?thesis using a UpdateReview
      by (auto simp: update_review_Inr review_violations_empty no_orphans_def list_all_iff
          split: if_splits)
  qed
next
  case (DeleteRide k)
  assume "no_orphans d"
  then show ?thesis using DeleteRide
    by (auto simp: delete_ride_eq keep_def no_orphans_def list_all_iff fk_holds_remove)
next
  case (DeleteUser k)
  assume "no_orphans d"
  then show ?thesis using DeleteUser
    by (auto simp: delete_user_eq keep_def no_orphans_def list_all_iff fk_holds_remove)
qed

lemma booking_invariants_apply_op:
  "list_all booking_invariants (bookings d) \<Longrightarrow>
     list_all booking_invariants (bookings (apply_op d op))"
proof (cases op)
  case (InsertBooking srv b)
  assume a: "list_all booking_invariants (bookings d)"
  from keep_cases [of d "insert_booking srv d b"] show ?thesis
  proof
    assume "keep d (insert_booking srv d b) = d"
    with a InsertBooking show ?thesis by simp
  next
    assume "insert_booking srv d b = Inr (keep d (insert_booking srv d b))"
    then show ?thesis using a InsertBooking
      by (auto simp: insert_booking_Inr booking_violations_empty)
  qed
next
  case (UpdateBooking k b)
  assume a: "list_all booking_invariants (bookings d)"
  from keep_cases [of d "update_booking d k b"] show ?thesis
  proof
    assume "keep d (update_booking d k b) = d"
    with a UpdateBooking show ?thesis by simp
  next
    assume "update_booking d k b = Inr (keep d (update_booking d k b))"
    then show ?thesis using a UpdateBooking
      by (auto simp: update_booking_Inr booking_violations_empty list_all_iff split: if_splits)
  qed
next
  case (InsertReview srv r)
  assume a: "list_all booking_invariants (bookings d)"
  from keep_cases [of d "insert_review srv d r"] a InsertReview show ?thesis
    by (auto simp: insert_review_Inr)
next
  case (UpdateReview k r)
  assume a: "list_all booking_invariants (bookings d)"
  from keep_cases [of d "update_review d k r"] a UpdateReview show ?thesis
    by (auto simp: update_review_Inr split: if_splits)
qed (auto simp: delete_ride_eq delete_user_eq keep_def list_all_iff)

lemma review_invariants_apply_op:
  "list_all review_invariants (reviews d) \<Longrightarrow>
     list_all review_invariants (reviews (apply_op d op))"
proof (cases op)
  case (InsertReview srv r)
  assume a: "list_all review_invariants (reviews d)"
  from keep_cases [of d "insert_review srv d r"] show ?thesis
  proof
    assume "keep d (insert_review srv d r) = d"
    with a InsertReview show ?thesis by simp
  next
    assume "insert_review srv d r = Inr (keep d (insert_review srv d r))"
    then show ?thesis using a InsertReview
      by (auto simp: insert_review_Inr review_violations_empty)
  qed
next
  case (UpdateReview k r)
  assume a: "list_all review_invariants (reviews d)"
  from keep_cases [of d "update_review d k r"] show ?thesis
  proof
    assume "keep d (update_review d k r) = d"
    with a UpdateReview show ?thesis by simp
  next
    assume "update_review d k r = Inr (keep d (update_review d k r))"
    then show ?thesis using a UpdateReview
      by (auto simp: update_review_Inr review_violations_empty list_all_iff split: if_splits)
  qed
next
  case (InsertBooking srv b)
  assume a: "list_all review_invariants (reviews d)"
  from keep_cases [of d "insert_booking srv d b"] a InsertBooking show ?thesis
    by (auto simp: insert_booking_Inr)
next
  case (UpdateBooking k b)
  assume a: "list_all review_invariants (reviews d)"
  from keep_cases [of d "update_booking d k b"] a UpdateBooking show ?thesis
    by (auto simp: update_booking_Inr split: if_splits)
qed (auto simp: delete_ride_eq delete_user_eq keep_def list_all_iff)

lemma keys_ok_insert_booking:
  assumes "keys_ok d" and "insert_booking srv d b = Inr d'"
  shows "keys_ok d'"
  using assms
  by (auto simp: insert_booking_Inr booking_violations_empty keys_ok_def)

lemma keys_ok_insert_review:
  assumes "keys_ok d" and "insert_review srv d r = Inr d'"
  shows "keys_ok d'"
  using assms
  by (auto simp: insert_review_Inr review_violations_empty keys_ok_def)

lemma keys_ok_update_booking:
  assumes "keys_ok d" and "update_booking d k b = Inr d'"
  shows "keys_ok d'"
proof (cases "Some k \<in> set (map b_id (bookings d))")
  case False
  with assms show ?thesis by (simp add: update_booking_Inr)
next
  case True
  let ?others = "filter (\<lambda>x. b_id x \<noteq> Some k) (bookings d)"
  from assms(2) True
  have v: "booking_violations d ?others b = []"
    and d': "d' = d\<lparr>bookings := map (\<lambda>x. if b_id x = Some k then b else x) (bookings d)\<rparr>"
    by (auto simp: update_booking_Inr)
  from v have b: "b_id b \<noteq> None" "b_id b \<notin> set (map b_id ?others)"
    by (simp_all add: booking_violations_empty)
  from assms(1) have k: "distinct (map b_id (bookings d))"
    "list_all (\<lambda>b. b_id b \<noteq> None) (bookings d)"
    by (simp_all add: keys_ok_def)
  have "distinct (map b_id (map (\<lambda>x. if b_id x = Some k then b else x) (bookings d)))"
    using k(1) b(2) k(1) by (rule distinct_map_replace)
  moreover have "list_all (\<lambda>b. b_id b \<noteq> None)
                   (map (\<lambda>x. if b_id x = Some k then b else x) (bookings d))"
    using k(2) b(1) by (auto simp: list_all_iff)
  ultimately show ?thesis using assms(1) by (simp add: d' keys_ok_def)
qed

lemma keys_ok_update_review:
  assumes "keys_ok d" and "update_review d k r = Inr d'"
  shows "keys_ok d'"
proof (cases "Some k \<in> set (map r_id (reviews d))")
  case False
  with assms show ?thesis by (simp add: update_review_Inr)
next
  case True
  let ?others = "filter (\<lambda>x. r_id x \<noteq> Some k) (reviews d)"
  from assms(2) True
  have v: "review_violations d ?others r = []"
    and d': "d' = d\<lparr>reviews := map (\<lambda>x. if r_id x = Some k then r else x) (reviews d)\<rparr>"
    by (auto simp: update_review_Inr)
  from v have r: "r_id r \<noteq> None" "r_id r \<notin> set (map r_id ?others)"
    "review_key r \<notin> set (map review_key ?others)"
    by (simp_all add: review_violations_empty)
  from assms(1) have k: "distinct (map r_id (reviews d))"
    "list_all (\<lambda>r. r_id r \<noteq> None) (reviews d)"
    "distinct (map review_key (reviews d))"
    by (simp_all add: keys_ok_def)
  have "distinct (map r_id (map (\<lambda>x. if r_id x = Some k then r else x) (reviews d)))"
    using k(1) r(2) k(1) by (rule distinct_map_replace)
  moreover have "distinct (map review_key (map (\<lambda>x. if r_id x = Some k then r else x) (reviews d)))"
    using k(3) r(3) k(1) by (rule distinct_map_replace)
  moreover have "list_all (\<lambda>r. r_id r \<noteq> None)
                   (map (\<lambda>x. if r_id x = Some k then r else x) (reviews d))"
    using k(2) r(1) by (auto simp: list_all_iff)
  ultimately show ?thesis using assms(1) by (simp add: d' keys_ok_def)
qed

lemma keys_ok_apply_op: "keys_ok d \<Longrightarrow> keys_ok (apply_op d op)"
proof (cases op)
  case (InsertBooking srv b)
  assume "keys_ok d"
  then show ?thesis
    using InsertBooking keep_cases [of d "insert_booking srv d b"] keys_ok_insert_booking
    by auto
next
  case (UpdateBooking k b)
  assume "keys_ok d"
  then show ?thesis
    using UpdateBooking keep_cases [of d "update_booking d k b"] keys_ok_update_booking
    by auto
next
  case (InsertReview srv r)
  assume "keys_ok d"
  then show ?thesis
    using InsertReview keep_cases [of d "insert_review srv d r"] keys_ok_insert_review
    by auto
next
  case (UpdateReview k r)
  assume "keys_ok d"
  then show ?thesis
    using UpdateReview keep_cases [of d "update_review d k r"] keys_ok_update_review
    by auto
next
  case (DeleteRide k)
  assume "keys_ok d"
  then show ?thesis using DeleteRide
    by (auto simp: delete_ride_eq keep_def keys_ok_def list_all_iff distinct_map_filter)
next
  case (DeleteUser k)
  assume "keys_ok d"
  then show ?thesis using DeleteUser
    by (auto simp: delete_user_eq keep_def keys_ok_def list_all_iff distinct_map_filter)
qed (auto simp: keys_ok_def)

lemma run_db_snoc: "run_db (ops @ [x]) = apply_op (run_db ops) x"
  by (simp add: run_db_def)

lemma run_db_invariants:
  "no_orphans (run_db ops) \<and> keys_ok (run_db ops)
   \<and> list_all booking_invariants (bookings (run_db ops))
   \<and> list_all review_invariants (reviews (run_db ops))"
proof (induction ops rule: rev_induct)
  case Nil
  show ?case by (simp add: run_db_def empty_db_def no_orphans_def keys_ok_def)
next
  case (snoc x xs)
  then show ?case
    by (simp add: run_db_snoc no_orphans_apply_op keys_ok_apply_op booking_invariants_apply_op
        review_invariants_apply_op)
qed

subsection \<open>The constraints of the two models\<close>

text \<open>
  C3.  A write of a booking row, an insert (after the server defaults) or an
  update of an existing row, that does not have \<^verbatim>\<open>seats_reserved > 0\<close>,
  \<^verbatim>\<open>amount_paid >= 0\<close> and one of the four status values is rejected, and among
  the violations reported is the check constraint or the \<^verbatim>\<open>NOT NULL\<close> of one of
  these three columns.  A booking with \<^verbatim>\<open>seats_reserved = 1\<close> and neither
  \<^verbatim>\<open>amount_paid\<close> nor \<^verbatim>\<open>status\<close> given, for an existing ride and passenger and
  with a fresh key, is accepted and stored with \<^verbatim>\<open>amount_paid = 0.00\<close> and
  \<^verbatim>\<open>status = 'pending'\<close>.  So every booking stored after any sequence of writes
  satisfies the three invariants.
\<close>

theorem booking_constraints:
  "(\<not> booking_invariants (booking_defaults srv vals) \<longrightarrow>
      (\<exists>vs. insert_booking srv d vals = Inl vs \<and> set vs \<inter> set booking_rejections \<noteq> {}))
   \<and> (Some k \<in> set (map b_id (bookings d)) \<and> \<not> booking_invariants b \<longrightarrow>
      (\<exists>vs. update_booking d k b = Inl vs \<and> set vs \<inter> set booking_rejections \<noteq> {}))
   \<and> (b_seats_reserved vals = Some 1 \<and> b_amount_paid vals = None \<and> b_status vals = None
        \<and> b_ride_id vals \<noteq> None \<and> fk_holds (b_ride_id vals) (rides d)
        \<and> b_passenger_id vals \<noteq> None \<and> fk_holds (b_passenger_id vals) (users d)
        \<and> b_id (booking_defaults srv vals) \<notin> set (map b_id (bookings d)) \<longrightarrow>
      insert_booking srv d vals = Inr (d\<lparr>bookings := bookings d @ [booking_defaults srv vals]\<rparr>)
      \<and> b_seats_reserved (booking_defaults srv vals) = Some 1
      \<and> b_amount_paid (booking_defaults srv vals) = Some 0
      \<and> b_status (booking_defaults srv vals) = Some ''pending'')
   \<and> list_all booking_invariants (bookings (run_db ops))"
proof (intro conjI impI)
  assume n: "\<not> booking_invariants (booking_defaults srv vals)"
  let ?vs = "booking_violations d (bookings d) (booking_defaults srv vals)"
  from booking_violations_named [OF n]
  have i: "set ?vs \<inter> set booking_rejections \<noteq> {}" by (simp add: booking_rejections_def)
  then have "?vs \<noteq> []" by auto
  then have "insert_booking srv d vals = Inl ?vs" by (simp add: insert_booking_def Let_def)
  with i show "\<exists>vs. insert_booking srv d vals = Inl vs \<and> set vs \<inter> set booking_rejections \<noteq> {}"
    by blast
next
  assume a: "Some k \<in> set (map b_id (bookings d)) \<and> \<not> booking_invariants b"
  let ?vs = "booking_violations d (filter (\<lambda>x. b_id x \<noteq> Some k) (bookings d)) b"
  from a booking_violations_named [of b]
  have i: "set ?vs \<inter> set booking_rejections \<noteq> {}" by (simp add: booking_rejections_def)
  then have "?vs \<noteq> []" by auto
  with a have "update_booking d k b = Inl ?vs" by (simp add: update_booking_def Let_def)
  with i show "\<exists>vs. update_booking d k b = Inl vs \<and> set vs \<inter> set booking_rejections \<noteq> {}"
    by blast
next
  assume a: "b_seats_reserved vals = Some 1 \<and> b_amount_paid vals = None \<and> b_status vals = None
        \<and> b_ride_id vals \<noteq> None \<and> fk_holds (b_ride_id vals) (rides d)
        \<and> b_passenger_id vals \<noteq> None \<and> fk_holds (b_passenger_id vals) (users d)
        \<and> b_id (booking_defaults srv vals) \<notin> set (map b_id (bookings d))"
  then have d: "b_seats_reserved (booking_defaults srv vals) = Some 1"
    "b_amount_paid (booking_defaults srv vals) = Some 0"
    "b_status (booking_defaults srv vals) = Some ''pending''"
    "b_id (booking_defaults srv vals) \<noteq> None"
    "b_booked_at (booking_defaults srv vals) \<noteq> None"
    "b_ride_id (booking_defaults srv vals) = b_ride_id vals"
    "b_passenger_id (booking_defaults srv vals) = b_passenger_id vals"
    by (simp_all add: booking_defaults_def server_default_def split: option.splits)
  from d(1-3) have "booking_invariants (booking_defaults srv vals)"
    by (simp add: booking_invariants_def)
  with a d have "booking_violations d (bookings d) (booking_defaults srv vals) = []"
    by (simp add: booking_violations_empty)
  then show "insert_booking srv d vals
               = Inr (d\<lparr>bookings := bookings d @ [booking_defaults srv vals]\<rparr>)"
    by (simp add: insert_booking_def Let_def)
  from d show "b_seats_reserved (booking_defaults srv vals) = Some 1"
    "b_amount_paid (booking_defaults srv vals) = Some 0"
    "b_status (booking_defaults srv vals) = Some ''pending''"
    by simp_all
next
  show "list_all booking_invariants (bookings (run_db ops))"
    using run_db_invariants by blast
qed

lemma example_booking_defaults:
  "booking_defaults example_server (example_booking 1) = stored_booking"
  by (simp add: booking_defaults_def example_server_def example_booking_def stored_booking_def
      server_default_def)

theorem booking_constraints_witness:
  "\<not> booking_invariants (booking_defaults example_server (example_booking 0))
   \<and> insert_booking example_server example_db (example_booking 0)
       = Inl [CheckViolation ''check_seats_reserved_positive'']
   \<and> (\<exists>vs. insert_booking example_server example_db (example_booking 0) = Inl vs
          \<and> set vs \<inter> set booking_rejections \<noteq> {})
   \<and> insert_booking example_server example_db (example_booking 1)
       = Inr (example_db\<lparr>bookings := bookings example_db
                @ [booking_defaults example_server (example_booking 1)]\<rparr>)
   \<and> b_amount_paid (booking_defaults example_server (example_booking 1)) = Some 0
   \<and> b_status (booking_defaults example_server (example_booking 1)) = Some ''pending''"
proof -
  have h: "\<not> booking_invariants (booking_defaults example_server (example_booking 0))"
    by (simp add: booking_invariants_def booking_defaults_def example_booking_def)
  have e: "insert_booking example_server example_db (example_booking 0)
             = Inl [CheckViolation ''check_seats_reserved_positive'']"
    by (simp add: insert_booking_def booking_violations_def booking_not_null_def
        booking_checks_def not_null_def checks_def sql_check_def primary_key_def
        foreign_key_def fk_holds_def booking_defaults_def server_default_def
        example_booking_def example_db_def example_server_def Let_def)
  have g: "b_seats_reserved (example_booking 1) = Some 1 \<and> b_amount_paid (example_booking 1) = None
        \<and> b_status (example_booking 1) = None
        \<and> b_ride_id (example_booking 1) \<noteq> None
        \<and> fk_holds (b_ride_id (example_booking 1)) (rides example_db)
        \<and> b_passenger_id (example_booking 1) \<noteq> None
        \<and> fk_holds (b_passenger_id (example_booking 1)) (users example_db)
        \<and> b_id (booking_defaults example_server (example_booking 1))
            \<notin> set (map b_id (bookings example_db))"
    by (simp add: example_booking_def example_db_def fk_holds_def)
  from booking_constraints [of example_server "example_booking 0" example_db] h
  have a: "\<exists>vs. insert_booking example_server example_db (example_booking 0) = Inl vs
          \<and> set vs \<inter> set booking_rejections \<noteq> {}"
    by blast
  from booking_constraints [of example_server "example_booking 1" example_db] g
  have b: "insert_booking example_server example_db (example_booking 1)
       = Inr (example_db\<lparr>bookings := bookings example_db
                @ [booking_defaults example_server (example_booking 1)]\<rparr>)
   \<and> b_amount_paid (booking_defaults example_server (example_booking 1)) = Some 0
   \<and> b_status (booking_defaults example_server (example_booking 1)) = Some ''pending''"
    by blast
  from h e a b show ?thesis by blast
qed

lemma review_defaults_key [simp]: "review_key (review_defaults srv r) = review_key r"
  by (simp add: review_defaults_def review_key_def)

text \<open>
  C4.  A write of a review row, insert or update, whose rating is not between 1
  and 5 is rejected, with \<^verbatim>\<open>check_rating_range\<close> (or the \<^verbatim>\<open>NOT NULL\<close> of
  \<^verbatim>\<open>rating\<close>) among the violations.  In particular an insert with
  \<^verbatim>\<open>rating = 6\<close> fails on \<^verbatim>\<open>check_rating_range\<close>, and one with \<^verbatim>\<open>rating = 5\<close>
  whose other columns are valid (existing ride, reviewer and reviewee, fresh
  key, no review yet for the same three) is stored.  Every review stored after
  any sequence of writes has a rating from 1 to 5.
\<close>

theorem review_rating_range:
  "(\<not> review_invariants (review_defaults srv vals) \<longrightarrow>
      (\<exists>vs. insert_review srv d vals = Inl vs
         \<and> (NotNullViolation ''rating'' \<in> set vs \<or> CheckViolation ''check_rating_range'' \<in> set vs)))
   \<and> (Some k \<in> set (map r_id (reviews d)) \<and> \<not> review_invariants r \<longrightarrow>
      (\<exists>vs. update_review d k r = Inl vs
         \<and> (NotNullViolation ''rating'' \<in> set vs \<or> CheckViolation ''check_rating_range'' \<in> set vs)))
   \<and> (r_rating vals = Some 6 \<longrightarrow>
      (\<exists>vs. insert_review srv d vals = Inl vs \<and> CheckViolation ''check_rating_range'' \<in> set vs))
   \<and> (r_rating vals = Some 5
        \<and> r_ride_id vals \<noteq> None \<and> fk_holds (r_ride_id vals) (rides d)
        \<and> r_reviewer_id vals \<noteq> None \<and> fk_holds (r_reviewer_id vals) (users d)
        \<and> r_reviewee_id vals \<noteq> None \<and> fk_holds (r_reviewee_id vals) (users d)
        \<and> r_id (review_defaults srv vals) \<notin> set (map r_id (reviews d))
        \<and> review_key vals \<notin> set (map review_key (reviews d)) \<longrightarrow>
      insert_review srv d vals = Inr (d\<lparr>reviews := reviews d @ [review_defaults srv vals]\<rparr>)
      \<and> r_rating (review_defaults srv vals) = Some 5)
   \<and> list_all review_invariants (reviews (run_db ops))"
proof (intro conjI impI)
  assume n: "\<not> review_invariants (review_defaults srv vals)"
  let ?vs = "review_violations d (reviews d) (review_defaults srv vals)"
  from review_violations_named [OF n]
  have i: "NotNullViolation ''rating'' \<in> set ?vs \<or> CheckViolation ''check_rating_range'' \<in> set ?vs" .
  then have "?vs \<noteq> []" by auto
  then have "insert_review srv d vals = Inl ?vs" by (simp add: insert_review_def Let_def)
  with i show "\<exists>vs. insert_review srv d vals = Inl vs
         \<and> (NotNullViolation ''rating'' \<in> set vs \<or> CheckViolation ''check_rating_range'' \<in> set vs)"
    by blast
next
  assume a: "Some k \<in> set (map r_id (reviews d)) \<and> \<not> review_invariants r"
  let ?vs = "review_violations d (filter (\<lambda>x. r_id x \<noteq> Some k) (reviews d)) r"
  from a review_violations_named [of r]
  have i: "NotNullViolation ''rating'' \<in> set ?vs \<or> CheckViolation ''check_rating_range'' \<in> set ?vs"
    by simp
  then have "?vs \<noteq> []" by auto
  with a have "update_review d k r = Inl ?vs" by (simp add: update_review_def Let_def)
  with i show "\<exists>vs. update_review d k r = Inl vs
         \<and> (NotNullViolation ''rating'' \<in> set vs \<or> CheckViolation ''check_rating_range'' \<in> set vs)"
    by blast
next
  assume s: "r_rating vals = Some 6"
  let ?vs = "review_violations d (reviews d) (review_defaults srv vals)"
  from s have i: "CheckViolation ''check_rating_range'' \<in> set ?vs"
    by (simp add: review_violations_def review_checks_def checks_mem sql_check_def
        review_defaults_def)
  then have "?vs \<noteq> []" by auto
  then have "insert_review srv d vals = Inl ?vs" by (simp add: insert_review_def Let_def)
  with i show "\<exists>vs. insert_review srv d vals = Inl vs \<and> CheckViolation ''check_rating_range'' \<in> set vs"
    by blast
next
  assume a: "r_rating vals = Some 5
        \<and> r_ride_id vals \<noteq> None \<and> fk_holds (r_ride_id vals) (rides d)
        \<and> r_reviewer_id vals \<noteq> None \<and> fk_holds (r_reviewer_id vals) (users d)
        \<and> r_reviewee_id vals \<noteq> None \<and> fk_holds (r_reviewee_id vals) (users d)
        \<and> r_id (review_defaults srv vals) \<notin> set (map r_id (reviews d))
        \<and> review_key vals \<notin> set (map review_key (reviews d))"
  then have d: "r_rating (review_defaults srv vals) = Some 5"
    "r_id (review_defaults srv vals) \<noteq> None"
    "r_created_at (review_defaults srv vals) \<noteq> None"
    "r_ride_id (review_defaults srv vals) = r_ride_id vals"
    "r_reviewer_id (review_defaults srv vals) = r_reviewer_id vals"
    "r_reviewee_id (review_defaults srv vals) = r_reviewee_id vals"
    by (simp_all add: review_defaults_def server_default_def split: option.splits)
  from d(1) have "review_invariants (review_defaults srv vals)"
    by (simp add: review_invariants_def)
  with a d have "review_violations d (reviews d) (review_defaults srv vals) = []"
    by (simp add: review_violations_empty)
  then show "insert_review srv d vals
               = Inr (d\<lparr>reviews := reviews d @ [review_defaults srv vals]\<rparr>)"
    by (simp add: insert_review_def Let_def)
  from d show "r_rating (review_defaults srv vals) = Some 5" by simp
next
  show "list_all review_invariants (reviews (run_db ops))"
    using run_db_invariants by blast
qed

lemma example_review_defaults:
  "review_defaults example_server (example_review 5) = stored_review"
  by (simp add: review_defaults_def example_server_def example_review_def stored_review_def
      server_default_def)

lemma example_review_insert:
  "insert_review example_server example_db (example_review 5)
     = Inr (example_db\<lparr>reviews := [stored_review]\<rparr>)"
  by (simp add: insert_review_def review_violations_def review_not_null_def
      review_checks_def not_null_def checks_def sql_check_def primary_key_def review_unique_def
      foreign_key_def fk_holds_def example_review_defaults stored_review_def
      example_db_def Let_def)

theorem review_rating_range_witness:
  "r_rating (example_review 6) = Some 6
   \<and> insert_review example_server example_db (example_review 6)
       = Inl [CheckViolation ''check_rating_range'']
   \<and> (\<exists>vs. insert_review example_server example_db (example_review 6) = Inl vs
          \<and> CheckViolation ''check_rating_range'' \<in> set vs)
   \<and> insert_review example_server example_db (example_review 5)
       = Inr (example_db\<lparr>reviews := reviews example_db
                @ [review_defaults example_server (example_review 5)]\<rparr>)"
proof -
  have h: "r_rating (example_review 6) = Some 6" by (simp add: example_review_def)
  have e: "insert_review example_server example_db (example_review 6)
             = Inl [CheckViolation ''check_rating_range'']"
    by (simp add: insert_review_def review_violations_def review_not_null_def
        review_checks_def not_null_def checks_def sql_check_def primary_key_def
        review_unique_def foreign_key_def fk_holds_def review_defaults_def server_default_def
        example_review_def example_db_def example_server_def Let_def)
  have g: "r_rating (example_review 5) = Some 5
        \<and> r_ride_id (example_review 5) \<noteq> None
        \<and> fk_holds (r_ride_id (example_review 5)) (rides example_db)
        \<and> r_reviewer_id (example_review 5) \<noteq> None
        \<and> fk_holds (r_reviewer_id (example_review 5)) (users example_db)
        \<and> r_reviewee_id (example_review 5) \<noteq> None
        \<and> fk_holds (r_reviewee_id (example_review 5)) (users example_db)
        \<and> r_id (review_defaults example_server (example_review 5))
            \<notin> set (map r_id (reviews example_db))
        \<and> review_key (example_review 5) \<notin> set (map review_key (reviews example_db))"
    by (simp add: example_review_def example_db_def fk_holds_def)
  from review_rating_range [of example_server "example_review 6" example_db] h
  have a: "\<exists>vs. insert_review example_server example_db (example_review 6) = Inl vs
          \<and> CheckViolation ''check_rating_range'' \<in> set vs"
    by blast
  from review_rating_range [of example_server "example_review 5" example_db] g
  have b: "insert_review example_server example_db (example_review 5)
       = Inr (example_db\<lparr>reviews := reviews example_db
                @ [review_defaults example_server (example_review 5)]\<rparr>)"
    by blast
  from h e a b show ?thesis by blast
qed

text \<open>
  C5, as the store has it.  When a review has been inserted, an insert of a
  second review with the same \<^verbatim>\<open>(ride_id, reviewer_id, reviewee_id)\<close> is
  rejected, whatever its other columns are, and the store is left as it was:
  the first row is still there, and is not overwritten.  When the second row is
  valid but for the three columns (its rating is from 1 to 5 and its key is
  fresh), the one violation is \<^verbatim>\<open>unique_review_per_ride_pair\<close>, and that is
  the error raised.  After any sequence of writes no two stored reviews have
  the same three values.
\<close>

theorem review_pair_unique:
  "(insert_review srv1 d r1 = Inr d1 \<and> review_key r2 = review_key r1 \<longrightarrow>
      (\<exists>vs. insert_review srv2 d1 r2 = Inl vs \<and> vs \<noteq> [])
      \<and> apply_op d1 (InsertReview srv2 r2) = d1
      \<and> reviews d1 = reviews d @ [review_defaults srv1 r1]
      \<and> (review_invariants (review_defaults srv2 r2)
           \<and> r_id (review_defaults srv2 r2) \<notin> set (map r_id (reviews d1)) \<longrightarrow>
          insert_review srv2 d1 r2 = Inl [UniqueViolation ''unique_review_per_ride_pair'']
          \<and> raised_error (insert_review srv2 d1 r2)
              = Some (UniqueViolation ''unique_review_per_ride_pair'')))
   \<and> distinct (map review_key (reviews (run_db ops)))"
proof (intro conjI impI)
  assume a: "insert_review srv1 d r1 = Inr d1 \<and> review_key r2 = review_key r1"
  let ?r1 = "review_defaults srv1 r1"
  let ?r2 = "review_defaults srv2 r2"
  from a have v: "review_violations d (reviews d) ?r1 = []"
    and d1: "d1 = d\<lparr>reviews := reviews d @ [?r1]\<rparr>"
    by (simp_all add: insert_review_Inr)
  from v have nn: "r_ride_id ?r1 \<noteq> None" "r_reviewer_id ?r1 \<noteq> None" "r_reviewee_id ?r1 \<noteq> None"
    and fk: "fk_holds (r_ride_id ?r1) (rides d)" "fk_holds (r_reviewer_id ?r1) (users d)"
      "fk_holds (r_reviewee_id ?r1) (users d)"
    by (simp_all add: review_violations_empty)
  from a have k: "review_key ?r2 = review_key ?r1" by simp
  then have same: "r_ride_id ?r2 = r_ride_id ?r1" "r_reviewer_id ?r2 = r_reviewer_id ?r1"
    "r_reviewee_id ?r2 = r_reviewee_id ?r1"
    by (simp_all add: review_key_def)
  from k d1 have "review_key ?r2 \<in> set (map review_key (reviews d1))" by simp
  with nn same
  have u: "review_unique (reviews d1) ?r2 = [UniqueViolation ''unique_review_per_ride_pair'']"
    by (simp add: review_unique_def)
  let ?vs = "review_violations d1 (reviews d1) ?r2"
  from u have i: "UniqueViolation ''unique_review_per_ride_pair'' \<in> set ?vs"
    by (simp add: review_violations_def)
  then have ne: "?vs \<noteq> []" by auto
  then have e: "insert_review srv2 d1 r2 = Inl ?vs" by (simp add: insert_review_def Let_def)
  with ne show "\<exists>vs. insert_review srv2 d1 r2 = Inl vs \<and> vs \<noteq> []" by blast
  from e show "apply_op d1 (InsertReview srv2 r2) = d1" by (simp add: keep_def)
  from d1 show "reviews d1 = reviews d @ [?r1]" by simp
  assume ok: "review_invariants ?r2 \<and> r_id ?r2 \<notin> set (map r_id (reviews d1))"
  have dflt: "r_id ?r2 \<noteq> None" "r_created_at ?r2 \<noteq> None"
    by (simp_all add: review_defaults_def server_default_def split: option.splits)
  from ok have rt: "r_rating ?r2 \<noteq> None" "sql_check (r_rating ?r2) (\<lambda>n. n \<ge> 1 \<and> n \<le> 5)"
    by (auto simp: review_invariants_def sql_check_def split: option.splits)
  from d1 fk same have fk2: "fk_holds (r_ride_id ?r2) (rides d1)"
    "fk_holds (r_reviewer_id ?r2) (users d1)" "fk_holds (r_reviewee_id ?r2) (users d1)"
    by simp_all
  from dflt rt nn same ok fk2 u
  have "?vs = [UniqueViolation ''unique_review_per_ride_pair'']"
    by (simp add: review_violations_def review_not_null_def review_checks_def not_null_def
        checks_def primary_key_def foreign_key_def)
  with e show "insert_review srv2 d1 r2 = Inl [UniqueViolation ''unique_review_per_ride_pair'']"
    by simp
  then show "raised_error (insert_review srv2 d1 r2)
              = Some (UniqueViolation ''unique_review_per_ride_pair'')"
    by (simp add: raised_error_def)
next
  show "distinct (map review_key (reviews (run_db ops)))"
    using run_db_invariants [of ops] by (simp add: keys_ok_def)
qed

theorem review_pair_unique_witness:
  "insert_review example_server example_db (example_review 5)
     = Inr (example_db\<lparr>reviews := [stored_review]\<rparr>)
   \<and> review_key (example_review 3) = review_key (example_review 5)
   \<and> review_invariants (review_defaults later_server (example_review 3))
   \<and> r_id (review_defaults later_server (example_review 3))
       \<notin> set (map r_id (reviews (example_db\<lparr>reviews := [stored_review]\<rparr>)))
   \<and> insert_review later_server (example_db\<lparr>reviews := [stored_review]\<rparr>) (example_review 3)
       = Inl [UniqueViolation ''unique_review_per_ride_pair'']
   \<and> apply_op (example_db\<lparr>reviews := [stored_review]\<rparr>) (InsertReview later_server (example_review 3))
       = example_db\<lparr>reviews := [stored_review]\<rparr>"
proof -
  have k: "review_key (example_review 3) = review_key (example_review 5)"
    by (simp add: review_key_def example_review_def)
  have v: "review_invariants (review_defaults later_server (example_review 3))"
    by (simp add: review_invariants_def review_defaults_def example_review_def)
  have f: "r_id (review_defaults later_server (example_review 3))
       \<notin> set (map r_id (reviews (example_db\<lparr>reviews := [stored_review]\<rparr>)))"
    by (simp add: review_defaults_def server_default_def example_review_def later_server_def
        stored_review_def)
  from review_pair_unique [of example_server example_db "example_review 5"
      "example_db\<lparr>reviews := [stored_review]\<rparr>" "example_review 3" later_server]
    example_review_insert k v f
  show ?thesis by blast
qed

text \<open>
  The claim as it is written fails for a second row that breaks another
  constraint as well: with the same three values and \<^verbatim>\<open>rating = 6\<close> the insert
  fails on \<^verbatim>\<open>check_rating_range\<close>, which the store checks on the row before it
  looks at the unique index, and no uniqueness violation is raised.
\<close>

theorem duplicate_with_bad_rating_counterexample:
  "insert_review example_server example_db (example_review 5)
     = Inr (example_db\<lparr>reviews := [stored_review]\<rparr>)
   \<and> review_key (example_review 6) = review_key (example_review 5)
   \<and> raised_error (insert_review later_server (example_db\<lparr>reviews := [stored_review]\<rparr>)
        (example_review 6))
       = Some (CheckViolation ''check_rating_range'')
   \<and> raised_error (insert_review later_server (example_db\<lparr>reviews := [stored_review]\<rparr>)
        (example_review 6))
       \<noteq> Some (UniqueViolation ''unique_review_per_ride_pair'')"
proof -
  have k: "review_key (example_review 6) = review_key (example_review 5)"
    by (simp add: review_key_def example_review_def)
  have r: "raised_error (insert_review later_server (example_db\<lparr>reviews := [stored_review]\<rparr>)
        (example_review 6))
       = Some (CheckViolation ''check_rating_range'')"
    by (simp add: raised_error_def insert_review_def review_violations_def review_not_null_def
        review_checks_def not_null_def checks_def sql_check_def primary_key_def
        review_unique_def review_key_def foreign_key_def fk_holds_def review_defaults_def
        server_default_def example_review_def stored_review_def example_db_def
        later_server_def Let_def)
  from example_review_insert k r show ?thesis by simp
qed

text \<open>
  C6.  All four foreign keys cascade.  So deleting a ride, or a user, is never
  refused: it always yields a new state, in which the key is gone and exactly
  the bookings and reviews that referred to it (by \<^verbatim>\<open>ride_id\<close>; by
  \<^verbatim>\<open>passenger_id\<close>, \<^verbatim>\<open>reviewer_id\<close> or \<^verbatim>\<open>reviewee_id\<close>) are gone with it.  When
  no stored row referred to a missing ride or user before, none does
  afterwards; and this is so in every state that the writes can reach.
\<close>

theorem cascade_delete:
  "fk_ondelete booking_ride_fk = CASCADE \<and> fk_ondelete booking_passenger_fk = CASCADE
   \<and> fk_ondelete review_ride_fk = CASCADE \<and> fk_ondelete review_reviewer_fk = CASCADE
   \<and> fk_ondelete review_reviewee_fk = CASCADE
   \<and> (\<exists>d'. delete_ride d k = Inr d'
          \<and> k \<notin> rides d'
          \<and> (k \<in> rides d \<longrightarrow>
                rides d' = rides d - {k} \<and> users d' = users d
                \<and> bookings d' = filter (\<lambda>b. b_ride_id b \<noteq> Some k) (bookings d)
                \<and> reviews d' = filter (\<lambda>r. r_ride_id r \<noteq> Some k) (reviews d))
          \<and> (no_orphans d \<longrightarrow>
                no_orphans d'
                \<and> list_all (\<lambda>b. b_ride_id b \<noteq> Some k) (bookings d')
                \<and> list_all (\<lambda>r. r_ride_id r \<noteq> Some k) (reviews d')))
   \<and> (\<exists>d'. delete_user d k = Inr d'
          \<and> k \<notin> users d'
          \<and> (k \<in> users d \<longrightarrow>
                users d' = users d - {k} \<and> rides d' = rides d
                \<and> bookings d' = filter (\<lambda>b. b_passenger_id b \<noteq> Some k) (bookings d)
                \<and> reviews d' = filter (\<lambda>r. r_reviewer_id r \<noteq> Some k \<and> r_reviewee_id r \<noteq> Some k)
                                 (reviews d))
          \<and> (no_orphans d \<longrightarrow>
                no_orphans d'
                \<and> list_all (\<lambda>b. b_passenger_id b \<noteq> Some k) (bookings d')
                \<and> list_all (\<lambda>r. r_reviewer_id r \<noteq> Some k \<and> r_reviewee_id r \<noteq> Some k)
                     (reviews d')))
   \<and> no_orphans (run_db ops)"
proof -
  have fk: "fk_ondelete booking_ride_fk = CASCADE \<and> fk_ondelete booking_passenger_fk = CASCADE
     \<and> fk_ondelete review_ride_fk = CASCADE \<and> fk_ondelete review_reviewer_fk = CASCADE
     \<and> fk_ondelete review_reviewee_fk = CASCADE"
    by (simp add: booking_ride_fk_def booking_passenger_fk_def review_ride_fk_def
        review_reviewer_fk_def review_reviewee_fk_def)
  let ?dr = "keep d (delete_ride d k)"
  have r0: "delete_ride d k = Inr ?dr" by (simp add: delete_ride_eq keep_def)
  have r1: "k \<notin> rides ?dr" by (simp add: delete_ride_eq keep_def)
  have r2: "k \<in> rides d \<longrightarrow>
                rides ?dr = rides d - {k} \<and> users ?dr = users d
                \<and> bookings ?dr = filter (\<lambda>b. b_ride_id b \<noteq> Some k) (bookings d)
                \<and> reviews ?dr = filter (\<lambda>r. r_ride_id r \<noteq> Some k) (reviews d)"
    by (simp add: delete_ride_eq keep_def)
  have r3: "no_orphans d \<longrightarrow>
                no_orphans ?dr
                \<and> list_all (\<lambda>b. b_ride_id b \<noteq> Some k) (bookings ?dr)
                \<and> list_all (\<lambda>r. r_ride_id r \<noteq> Some k) (reviews ?dr)"
  proof
    assume o: "no_orphans d"
    from no_orphans_apply_op [OF o, of "DeleteRide k"] have "no_orphans ?dr" by simp
    moreover from o have "list_all (\<lambda>b. b_ride_id b \<noteq> Some k) (bookings ?dr)"
      by (auto simp: delete_ride_eq keep_def no_orphans_def list_all_iff fk_holds_def)
    moreover from o have "list_all (\<lambda>r. r_ride_id r \<noteq> Some k) (reviews ?dr)"
      by (auto simp: delete_ride_eq keep_def no_orphans_def list_all_iff fk_holds_def)
    ultimately show "no_orphans ?dr
                \<and> list_all (\<lambda>b. b_ride_id b \<noteq> Some k) (bookings ?dr)
                \<and> list_all (\<lambda>r. r_ride_id r \<noteq> Some k) (reviews ?dr)"
      by blast
  qed
  let ?du = "keep d (delete_user d k)"
  have u0: "delete_user d k = Inr ?du" by (simp add: delete_user_eq keep_def)
  have u1: "k \<notin> users ?du" by (simp add: delete_user_eq keep_def)
  have u2: "k \<in> users d \<longrightarrow>
                users ?du = users d - {k} \<and> rides ?du = rides d
                \<and> bookings ?du = filter (\<lambda>b. b_passenger_id b \<noteq> Some k) (bookings d)
                \<and> reviews ?du = filter (\<lambda>r. r_reviewer_id r \<noteq> Some k \<and> r_reviewee_id r \<noteq> Some k)
                                 (reviews d)"
    by (auto simp: delete_user_eq keep_def intro: filter_cong)
  have u3: "no_orphans d \<longrightarrow>
                no_orphans ?du
                \<and> list_all (\<lambda>b. b_passenger_id b \<noteq> Some k) (bookings ?du)
                \<and> list_all (\<lambda>r. r_reviewer_id r \<noteq> Some k \<and> r_reviewee_id r \<noteq> Some k)
                     (reviews ?du)"
  proof
    assume o: "no_orphans d"
    from no_orphans_apply_op [OF o, of "DeleteUser k"] have "no_orphans ?du" by simp
    moreover from o have "list_all (\<lambda>b. b_passenger_id b \<noteq> Some k) (bookings ?du)"
      by (auto simp: delete_user_eq keep_def no_orphans_def list_all_iff fk_holds_def)
    moreover from o
    have "list_all (\<lambda>r. r_reviewer_id r \<noteq> Some k \<and> r_reviewee_id r \<noteq> Some k) (reviews ?du)"
      by (auto simp: delete_user_eq keep_def no_orphans_def list_all_iff fk_holds_def)
    ultimately show "no_orphans ?du
                \<and> list_all (\<lambda>b. b_passenger_id b \<noteq> Some k) (bookings ?du)
                \<and> list_all (\<lambda>r. r_reviewer_id r \<noteq> Some k \<and> r_reviewee_id r \<noteq> Some k)
                     (reviews ?du)"
      by blast
  qed
  have o: "no_orphans (run_db ops)" using run_db_invariants by blast
  from r0 r1 r2 r3 have R: "\<exists>d'. delete_ride d k = Inr d'
          \<and> k \<notin> rides d'
          \<and> (k \<in> rides d \<longrightarrow>
                rides d' = rides d - {k} \<and> users d' = users d
                \<and> bookings d' = filter (\<lambda>b. b_ride_id b \<noteq> Some k) (bookings d)
                \<and> reviews d' = filter (\<lambda>r. r_ride_id r \<noteq> Some k) (reviews d))
          \<and> (no_orphans d \<longrightarrow>
                no_orphans d'
                \<and> list_all (\<lambda>b. b_ride_id b \<noteq> Some k) (bookings d')
                \<and> list_all (\<lambda>r. r_ride_id r \<noteq> Some k) (reviews d'))"
    by blast
  from u0 u1 u2 u3 have U: "\<exists>d'. delete_user d k = Inr d'
          \<and> k \<notin> users d'
          \<and> (k \<in> users d \<longrightarrow>
                users d' = users d - {k} \<and> rides d' = rides d
                \<and> bookings d' = filter (\<lambda>b. b_passenger_id b \<noteq> Some k) (bookings d)
                \<and> reviews d' = filter (\<lambda>r. r_reviewer_id r \<noteq> Some k \<and> r_reviewee_id r \<noteq> Some k)
                                 (reviews d))
          \<and> (no_orphans d \<longrightarrow>
                no_orphans d'
                \<and> list_all (\<lambda>b. b_passenger_id b \<noteq> Some k) (bookings d')
                \<and> list_all (\<lambda>r. r_reviewer_id r \<noteq> Some k \<and> r_reviewee_id r \<noteq> Some k)
                     (reviews d'))"
    by blast
  from fk R U o show ?thesis by blast
qed

lemma full_db_no_orphans: "no_orphans full_db"
  by (simp add: no_orphans_def full_db_def stored_booking_def stored_review_def fk_holds_def)

theorem cascade_delete_witness:
  "no_orphans full_db
   \<and> delete_ride full_db 1 = Inr \<lparr>rides = {}, users = {10, 11}, bookings = [], reviews = []\<rparr>
   \<and> delete_user full_db 11
       = Inr \<lparr>rides = {1}, users = {10}, bookings = [stored_booking], reviews = []\<rparr>
   \<and> (\<exists>d'. delete_ride full_db 1 = Inr d' \<and> no_orphans d' \<and> bookings d' = [] \<and> reviews d' = [])
   \<and> (\<exists>d'. delete_user full_db 11 = Inr d' \<and> no_orphans d' \<and> reviews d' = [])"
proof -
  have e1: "delete_ride full_db 1
              = Inr \<lparr>rides = {}, users = {10, 11}, bookings = [], reviews = []\<rparr>"
    by (simp add: delete_ride_def on_delete_def booking_ride_fk_def review_ride_fk_def
        full_db_def stored_booking_def stored_review_def)
  have e2: "delete_user full_db 11
              = Inr \<lparr>rides = {1}, users = {10}, bookings = [stored_booking], reviews = []\<rparr>"
    by (auto simp: delete_user_def on_delete_def booking_passenger_fk_def
        review_reviewer_fk_def review_reviewee_fk_def full_db_def stored_booking_def
        stored_review_def)
  from cascade_delete [of full_db 1] full_db_no_orphans e1
  have a: "\<exists>d'. delete_ride full_db 1 = Inr d' \<and> no_orphans d' \<and> bookings d' = [] \<and> reviews d' = []"
    by auto
  from cascade_delete [of full_db 11] full_db_no_orphans e2
  have b: "\<exists>d'. delete_user full_db 11 = Inr d' \<and> no_orphans d' \<and> reviews d' = []"
    by auto
  from full_db_no_orphans e1 e2 a b show ?thesis by blast
qed

end
